theory Spec2Isabelle
  imports Main
begin

section \<open>Arena model\<close>

text \<open>
  Modelled from the spec: the header \<^verbatim>\<open>memory_planning.h\<close> that declares
  \<^verbatim>\<open>LiveRange\<close>, \<^verbatim>\<open>Region\<close>, \<^verbatim>\<open>MemEvent\<close>, \<^verbatim>\<open>FrameNodeId\<close>, \<^verbatim>\<open>Strategy\<close> and the
  comparison structs is not among the sources. The field lists follow the uses in
  \<^verbatim>\<open>memory_planning.cpp\<close> and the aggregate initialisers in
  \<^verbatim>\<open>MemoryPlanningAllocator.cpp\<close>. Timestamps, sizes and offsets are \<^verbatim>\<open>uint64_t\<close> in the
  source; they are natural numbers here, and the places where the source adds two of them
  write the reduction modulo \<open>2 ^ 64\<close> out. The fields \<^verbatim>\<open>begin\<close>, \<^verbatim>\<open>end\<close>, \<^verbatim>\<open>size\<close> and
  \<^verbatim>\<open>type\<close> carry a suffix, since the plain names are taken.
\<close>

record LiveRange =
  begin_lr :: nat
  end_lr :: nat

record Region =
  offset :: nat
  size_r :: nat

datatype EventType = Allocate | Free

record MemEvent =
  time :: nat
  stack_trace :: string
  ptr_addr :: string
  node_schema :: string
  node_header :: string
  size_e :: nat
  type_e :: EventType

record FrameNodeId =
  pc :: nat
  node_schema_f :: string
  node_header_f :: string

datatype Strategy = NAIVE | LINEAR_SCAN | GREEDY_BY_SIZE | GREEDY_BY_BREADTH

text \<open>
  Every \<^verbatim>\<open>TORCH_INTERNAL_ASSERT\<close> and \<^verbatim>\<open>TORCH_CHECK\<close> of the source is one error value,
  named after the place that raises it.
\<close>

datatype error =
    AssertFreeWithoutAllocate
  | AssertFreeMismatch
  | AssertAllocsNotEmpty
  | AssertMemEventsEmpty
  | AssertSchemaCompare
  | CheckExceedsPlannedMemory
  | ExpectTensorType
  | BadOptionalAccess
  | AttributeError
  | AssertSingleOutput
  | NodeNotInGraph
  | NoSchema
  | CursorNeverStops

section \<open>Unordered maps\<close>

text \<open>
  A \<^verbatim>\<open>std::unordered_map\<close> is an association list with pairwise distinct keys; the list
  order stands for the iteration order, which here is the order of insertion.
  \<open>umap_insert\<close> is \<^verbatim>\<open>insert\<close> (an existing key keeps its value), \<open>umap_assign\<close> is
  \<^verbatim>\<open>m[k] = v\<close>.
\<close>

definition umap_insert :: "'k \<Rightarrow> 'v \<Rightarrow> ('k \<times> 'v) list \<Rightarrow> ('k \<times> 'v) list" where
  "umap_insert k v m = (case map_of m k of None \<Rightarrow> m @ [(k, v)] | Some _ \<Rightarrow> m)"

fun umap_assign :: "'k \<Rightarrow> 'v \<Rightarrow> ('k \<times> 'v) list \<Rightarrow> ('k \<times> 'v) list" where
  "umap_assign k v [] = [(k, v)]"
| "umap_assign k v ((k', v') # m) =
     (if k' = k then (k, v) # m else (k', v') # umap_assign k v m)"

section \<open>The graph and its external collaborators\<close>

text \<open>
  Modelled from the spec: the graph IR, the alias analysis, the operator registry and the
  interpreter's node headers are external to \<^verbatim>\<open>memory_planning.cpp\<close>. A \<^verbatim>\<open>Value\<close> is
  identified by \<open>unique\<close>; its type exposes an optional scalar type (the \<^verbatim>\<open>int8_t\<close> code of
  the dtype), optional concrete sizes and strides and an optional \<open>numel\<close>. A node has a
  kind, inputs, outputs and integer or integer-list attributes. A graph is the list
  \<^verbatim>\<open>graph->nodes()\<close>, the return node that closes the circular node list, and the counter
  for fresh values.
\<close>

record TensorType =
  scalarType :: "int option"
  sizes :: "int list option"
  strides :: "int list option"
  numel :: "nat option"

datatype Type = TensorT TensorType | OtherType

record Value =
  unique :: nat
  type_v :: Type

datatype AttrValue = AttrInt int | AttrInts "int list"

record Node =
  kind :: string
  inputs :: "Value list"
  outputs :: "Value list"
  attributes :: "(string \<times> AttrValue) list"

record Graph =
  nodes :: "Node list"
  return_node :: Node
  next_unique :: nat

text \<open>
  Modelled from the spec: what the planner asks of its collaborators.
  \<open>getAllOperatorsFor\<close> gives, for a node kind, the argument names of the schema of each
  registered operator; \<open>canonicalSchemaString\<close> is
  \<^verbatim>\<open>canonicalSchemaString(node->schema())\<close>, \<open>None\<close> where the node has no schema and
  \<^verbatim>\<open>schema()\<close> throws; \<open>timestamp\<close> is the execution index of a node, which the breadth
  heuristic compares with live ranges.
\<close>

record Externals =
  getAllOperatorsFor :: "string \<Rightarrow> string list list"
  elementSize :: "int \<Rightarrow> nat"
  GetAlwaysAliveValues :: "Graph \<Rightarrow> Value list"
  GetLiveness :: "Graph \<Rightarrow> Value list \<Rightarrow> (Value \<times> LiveRange) list"
  pickDeviceType :: "Graph \<Rightarrow> int option"
  getHeader :: "Node \<Rightarrow> string"
  canonicalSchemaString :: "Node \<Rightarrow> string option"
  timestamp :: "Node \<Rightarrow> nat"

text \<open>The warning of \<^verbatim>\<open>planMemory\<close>; the other diagnostics of the source are not modelled.\<close>

datatype Warning = OverlappingLiveRanges Value Value

text \<open>
  \<^verbatim>\<open>graph->create(kind, num_outputs)\<close>: a node that is not yet in the node list, with fresh
  outputs of the unrefined tensor type.
\<close>

definition dynamicTensor :: Type where
  "dynamicTensor = TensorT \<lparr>scalarType = None, sizes = None, strides = None, numel = None\<rparr>"

definition create :: "string \<Rightarrow> nat \<Rightarrow> Graph \<Rightarrow> Node \<times> Graph" where
  "create k num_outputs g =
     (\<lparr>kind = k, inputs = [],
       outputs = map (\<lambda>i. \<lparr>unique = next_unique g + i, type_v = dynamicTensor\<rparr>)
                   [0..<num_outputs],
       attributes = []\<rparr>,
      g\<lparr>next_unique := next_unique g + num_outputs\<rparr>)"

text \<open>
  Attributes hold \<^verbatim>\<open>int64_t\<close>: \<^verbatim>\<open>i_\<close> given a \<^verbatim>\<open>uint64_t\<close> stores its two's complement
  reading, and a \<^verbatim>\<open>uint64_t\<close> initialised from \<^verbatim>\<open>i\<close> reads it back. \<open>to_int8\<close> is
  \<^verbatim>\<open>static_cast<int8_t>\<close>. Reading an attribute that is not set throws.
\<close>

definition to_int64 :: "nat \<Rightarrow> int" where
  "to_int64 n = (let m = int (n mod 2 ^ 64) in if m < 2 ^ 63 then m else m - 2 ^ 64)"

definition to_uint64 :: "int \<Rightarrow> nat" where
  "to_uint64 i = nat (i mod 2 ^ 64)"

definition to_int8 :: "int \<Rightarrow> int" where
  "to_int8 i = (i + 128) mod 256 - 128"

definition attr_i :: "Node \<Rightarrow> string \<Rightarrow> error + int" where
  "attr_i n name =
     (case map_of (attributes n) name of
        Some (AttrInt v) \<Rightarrow> Inr v
      | _ \<Rightarrow> Inl AttributeError)"

definition node_output :: "Node \<Rightarrow> error + Value" where
  "node_output n = (case outputs n of [v] \<Rightarrow> Inr v | _ \<Rightarrow> Inl AssertSingleOutput)"

text \<open>\<^verbatim>\<open>allocation->node()\<close>: the position of the node that has the value among its outputs.\<close>

fun producer_index :: "Node list \<Rightarrow> Value \<Rightarrow> nat option" where
  "producer_index [] v = None"
| "producer_index (n # ns) v =
     (if v \<in> set (outputs n) then Some 0 else map_option Suc (producer_index ns v))"

text \<open>Modelled from the spec: \<^verbatim>\<open>at::kCPU\<close>, the host device, and the contiguous strides of
  \<^verbatim>\<open>at::detail::defaultStrides\<close>.\<close>

definition kCPU :: int where
  "kCPU = 0"

fun defaultStrides :: "int list \<Rightarrow> int list" where
  "defaultStrides [] = []"
| "defaultStrides (s # ss) = prod_list ss # defaultStrides ss"

section \<open>Trace-based liveness extraction\<close>

text \<open>
  \<^verbatim>\<open>getLiveRangesFromMemEvents\<close>: the three locals of the function are the sweep state,
  its fields with the suffix \<open>_st\<close>; \<open>processMemEvent\<close> is the body of the loop and
  \<open>sweepMemEvents\<close> the loop. The second argument of the assertion on a Free event,
  \<^verbatim>\<open>alloc.node_header == mem_event.node_header\<close>, is a message argument of the macro and
  not part of the asserted condition. No statement of the loop erases from \<^verbatim>\<open>allocs\<close>.
\<close>

record extract_state =
  managed_live_ranges_st :: "(LiveRange \<times> nat) list"
  live_range_node_header_st :: "(LiveRange \<times> FrameNodeId) list"
  allocs_st :: "(string \<times> MemEvent) list"

definition init_extract_state :: extract_state where
  "init_extract_state =
     \<lparr>managed_live_ranges_st = [], live_range_node_header_st = [], allocs_st = []\<rparr>"

definition processMemEvent :: "extract_state \<Rightarrow> MemEvent \<Rightarrow> error + extract_state" where
  "processMemEvent st mem_event =
     (case type_e mem_event of
        Allocate \<Rightarrow>
          Inr (st\<lparr>allocs_st := umap_insert (ptr_addr mem_event) mem_event (allocs_st st)\<rparr>)
      | Free \<Rightarrow>
          (case map_of (allocs_st st) (ptr_addr mem_event) of
             None \<Rightarrow> Inl AssertFreeWithoutAllocate
           | Some alloc \<Rightarrow>
               if type_e alloc = Allocate \<and> size_e alloc = size_e mem_event \<and>
                  time alloc < time mem_event \<and>
                  node_schema alloc = node_schema mem_event
               then
                 let lvr = \<lparr>begin_lr = time alloc, end_lr = time mem_event\<rparr>
                 in Inr (st\<lparr>
                      managed_live_ranges_st :=
                        umap_insert lvr (size_e alloc) (managed_live_ranges_st st),
                      live_range_node_header_st :=
                        live_range_node_header_st st @
                          [(lvr, \<lparr>pc = time alloc, node_schema_f = node_schema alloc,
                                  node_header_f = node_header alloc\<rparr>)]\<rparr>)
               else Inl AssertFreeMismatch))"

fun sweepMemEvents :: "extract_state \<Rightarrow> MemEvent list \<Rightarrow> error + extract_state" where
  "sweepMemEvents st [] = Inr st"
| "sweepMemEvents st (mem_event # rest) =
     (case processMemEvent st mem_event of
        Inl e \<Rightarrow> Inl e
      | Inr st' \<Rightarrow> sweepMemEvents st' rest)"

definition getLiveRangesFromMemEvents ::
  "MemEvent list \<Rightarrow> error + ((LiveRange \<times> nat) list \<times> (LiveRange \<times> FrameNodeId) list)" where
  "getLiveRangesFromMemEvents mem_events =
     (case sweepMemEvents init_extract_state mem_events of
        Inl e \<Rightarrow> Inl e
      | Inr st \<Rightarrow>
          if allocs_st st = [] then Inr (managed_live_ranges_st st, live_range_node_header_st st)
          else Inl AssertAllocsNotEmpty)"

section \<open>Packing heuristics\<close>

text \<open>
  Modelled from the spec: \<^verbatim>\<open>linear_scan.h\<close>, \<^verbatim>\<open>greedy_by_size.h\<close> and
  \<^verbatim>\<open>greedy_by_breadth.h\<close> and their implementations are not among the sources. Two live
  ranges overlap iff their closed intervals intersect; two regions collide iff the
  intervals \<open>[offset, offset + size)\<close> intersect: \<open>overlap\<close> and \<open>collide\<close> are these
  predicates of the specification, on the intervals themselves. The procedures compute
  with the \<^verbatim>\<open>uint64_t\<close> fields of a \<^verbatim>\<open>Region\<close>, as the code that is present does: \<open>add64\<close> is
  the sum of two such numbers, \<open>end64\<close> the end of a region and \<open>collide64\<close> the collision
  test as a procedure computes them.
\<close>

definition overlap :: "LiveRange \<Rightarrow> LiveRange \<Rightarrow> bool" where
  "overlap a b \<longleftrightarrow> max (begin_lr a) (begin_lr b) \<le> min (end_lr a) (end_lr b)"

definition collide :: "Region \<Rightarrow> Region \<Rightarrow> bool" where
  "collide a b \<longleftrightarrow>
     max (offset a) (offset b) < min (offset a + size_r a) (offset b + size_r b)"

definition add64 :: "nat \<Rightarrow> nat \<Rightarrow> nat" where
  "add64 a b = (a + b) mod 2 ^ 64"

definition end64 :: "Region \<Rightarrow> nat" where
  "end64 g = add64 (offset g) (size_r g)"

definition collide64 :: "Region \<Rightarrow> Region \<Rightarrow> bool" where
  "collide64 a b \<longleftrightarrow> max (offset a) (offset b) < min (end64 a) (end64 b)"

text \<open>
  \<^verbatim>\<open>std::sort\<close> with a comparator, as a stable insertion sort: the source leaves the order
  of elements that the comparator does not separate open.
\<close>

fun insert_by :: "('a \<Rightarrow> 'a \<Rightarrow> bool) \<Rightarrow> 'a \<Rightarrow> 'a list \<Rightarrow> 'a list" where
  "insert_by lt x [] = [x]"
| "insert_by lt x (y # ys) = (if lt y x then y # insert_by lt x ys else x # y # ys)"

definition std_sort :: "('a \<Rightarrow> 'a \<Rightarrow> bool) \<Rightarrow> 'a list \<Rightarrow> 'a list" where
  "std_sort lt xs = foldr (insert_by lt) xs []"

text \<open>
  Modelled from the spec: linear scan, whose source \<^verbatim>\<open>linear_scan.cpp\<close> is absent. Sweep
  the ranges by ascending \<^verbatim>\<open>begin\<close>; evict from
  the active set every range that ends before the current one begins; scan the free gaps
  between the active regions in ascending offset and take the first one that is large
  enough, or the high-water mark when none is; assign and insert into the active set.
\<close>

fun scanGaps :: "nat \<Rightarrow> nat \<Rightarrow> Region list \<Rightarrow> nat" where
  "scanGaps cur sz [] = cur"
| "scanGaps cur sz (g # gs) =
     (if add64 cur sz \<le> offset g then cur
      else scanGaps (max cur (end64 g)) sz gs)"

definition lowestFreeOffset :: "nat \<Rightarrow> Region list \<Rightarrow> nat" where
  "lowestFreeOffset sz regions = scanGaps 0 sz (sort_key offset regions)"

fun linearScanSweep ::
  "(LiveRange \<times> Region) list \<Rightarrow> (LiveRange \<times> nat) list \<Rightarrow> (LiveRange \<times> Region) list" where
  "linearScanSweep active [] = []"
| "linearScanSweep active ((r, sz) # rest) =
     (let active' = filter (\<lambda>(a, g). \<not> end_lr a < begin_lr r) active;
          reg = \<lparr>offset = lowestFreeOffset sz (map snd active'), size_r = sz\<rparr>
      in (r, reg) # linearScanSweep (active' @ [(r, reg)]) rest)"

definition linearScanHeuristic :: "(LiveRange \<times> nat) list \<Rightarrow> (LiveRange \<times> Region) list" where
  "linearScanHeuristic managed =
     linearScanSweep [] (sort_key (\<lambda>(r, sz). begin_lr r) managed)"

text \<open>
  Modelled from the spec: greedy by size, whose source \<^verbatim>\<open>greedy_by_size.cpp\<close> is absent.
  Sort by descending size, then ascending
  \<^verbatim>\<open>begin\<close>, then ascending \<^verbatim>\<open>end\<close>; for each range take the placed ranges that overlap it
  and choose the minimum candidate offset that fits, the candidates being 0 and the end
  of every overlapping placed region; record the placement. Where no candidate fits,
  which takes a sum that passes \<open>2 ^ 64\<close>, the specification names no offset and the
  model takes 0.
\<close>

definition size_then_range_cmp :: "LiveRange \<times> nat \<Rightarrow> LiveRange \<times> nat \<Rightarrow> bool" where
  "size_then_range_cmp a b \<longleftrightarrow>
     snd b < snd a \<or>
     (snd a = snd b \<and>
      (begin_lr (fst a) < begin_lr (fst b) \<or>
       (begin_lr (fst a) = begin_lr (fst b) \<and> end_lr (fst a) < end_lr (fst b))))"

definition fits :: "nat \<Rightarrow> Region list \<Rightarrow> nat \<Rightarrow> bool" where
  "fits sz placed c \<longleftrightarrow> (\<forall>p \<in> set placed. \<not> collide64 \<lparr>offset = c, size_r = sz\<rparr> p)"

definition lowestFittingCandidate :: "nat \<Rightarrow> Region list \<Rightarrow> nat" where
  "lowestFittingCandidate sz placed =
     (case List.find (fits sz placed) (sort (0 # map end64 placed)) of
        Some c \<Rightarrow> c
      | None \<Rightarrow> 0)"

fun placeAll ::
  "(LiveRange \<times> Region) list \<Rightarrow> (LiveRange \<times> nat) list \<Rightarrow> (LiveRange \<times> Region) list" where
  "placeAll plan [] = plan"
| "placeAll plan ((r, sz) # rest) =
     (let overlapping = map snd (filter (\<lambda>(p, g). overlap p r) plan);
          reg = \<lparr>offset = lowestFittingCandidate sz overlapping, size_r = sz\<rparr>
      in placeAll (umap_assign r reg plan) rest)"

definition greedyBySize :: "(LiveRange \<times> nat) list \<Rightarrow> (LiveRange \<times> Region) list" where
  "greedyBySize managed = placeAll [] (std_sort size_then_range_cmp managed)"

text \<open>
  Modelled from the spec: greedy by operator breadth, whose source
  \<^verbatim>\<open>greedy_by_breadth.cpp\<close> is absent. The breadth of a node is the sum of
  the sizes of the managed values whose live range contains the timestamp of the node;
  the nodes are sorted by descending breadth, and the managed outputs of each node, in
  graph order, are placed by the rule of greedy by size against all prior placements.
  The arguments are those of the call in \<^verbatim>\<open>planMemory\<close>; \<open>breadthItems\<close> is the list of
  live ranges and sizes in the order in which they are placed. A live range that two
  values share is placed twice, and the plan keeps the second placement.
\<close>

definition managedOutputs ::
  "(Value \<times> nat) list \<Rightarrow> (Value \<times> LiveRange) list \<Rightarrow> Node \<Rightarrow> (LiveRange \<times> nat) list" where
  "managedOutputs managed_sizes live_ranges node =
     List.map_filter
       (\<lambda>v. case map_of live_ranges v of
               None \<Rightarrow> None
             | Some r \<Rightarrow> map_option (\<lambda>sz. (r, sz)) (map_of managed_sizes v))
       (outputs node)"

definition breadth ::
  "(Node \<Rightarrow> nat) \<Rightarrow> (Value \<times> nat) list \<Rightarrow> (Value \<times> LiveRange) list \<Rightarrow> Node \<Rightarrow> nat" where
  "breadth time_of managed_sizes live_ranges node =
     sum_list
       (map snd
          (filter
             (\<lambda>item. case map_of live_ranges (fst item) of
                       None \<Rightarrow> False
                     | Some r \<Rightarrow> begin_lr r \<le> time_of node \<and> time_of node \<le> end_lr r)
             managed_sizes))"

definition breadthItems ::
  "(Node \<Rightarrow> nat) \<Rightarrow> (Value \<times> nat) list \<Rightarrow> (Value \<times> LiveRange) list \<Rightarrow> Node list \<Rightarrow>
   (LiveRange \<times> nat) list" where
  "breadthItems time_of managed_sizes live_ranges ops =
     (let ordered =
            std_sort
              (\<lambda>a b. breadth time_of managed_sizes live_ranges b <
                      breadth time_of managed_sizes live_ranges a)
              ops
      in concat (map (managedOutputs managed_sizes live_ranges) ordered))"

definition greedyByOperatorBreadth ::
  "(Node \<Rightarrow> nat) \<Rightarrow> (Value \<times> nat) list \<Rightarrow> (Value \<times> LiveRange) list \<Rightarrow> Node list \<Rightarrow>
   (LiveRange \<times> Region) list" where
  "greedyByOperatorBreadth time_of managed_sizes live_ranges ops =
     placeAll [] (breadthItems time_of managed_sizes live_ranges ops)"

text \<open>
  The same scan, candidate choice and placement over the natural numbers, with no
  reduction of the sums. The procedures above compute what these compute as long as the
  sizes to place sum to less than \<open>2 ^ 64\<close> (\<open>linearScanSweep_nat_eq\<close>, \<open>placeAll_nat_eq\<close>),
  and the correctness proofs go through them.
\<close>

fun scanGaps_nat :: "nat \<Rightarrow> nat \<Rightarrow> Region list \<Rightarrow> nat" where
  "scanGaps_nat cur sz [] = cur"
| "scanGaps_nat cur sz (g # gs) =
     (if cur + sz \<le> offset g then cur
      else scanGaps_nat (max cur (offset g + size_r g)) sz gs)"

definition lowestFreeOffset_nat :: "nat \<Rightarrow> Region list \<Rightarrow> nat" where
  "lowestFreeOffset_nat sz regions = scanGaps_nat 0 sz (sort_key offset regions)"

fun linearScanSweep_nat ::
  "(LiveRange \<times> Region) list \<Rightarrow> (LiveRange \<times> nat) list \<Rightarrow> (LiveRange \<times> Region) list" where
  "linearScanSweep_nat active [] = []"
| "linearScanSweep_nat active ((r, sz) # rest) =
     (let active' = filter (\<lambda>(a, g). \<not> end_lr a < begin_lr r) active;
          reg = \<lparr>offset = lowestFreeOffset_nat sz (map snd active'), size_r = sz\<rparr>
      in (r, reg) # linearScanSweep_nat (active' @ [(r, reg)]) rest)"

definition fits_nat :: "nat \<Rightarrow> Region list \<Rightarrow> nat \<Rightarrow> bool" where
  "fits_nat sz placed c \<longleftrightarrow> (\<forall>p \<in> set placed. \<not> collide \<lparr>offset = c, size_r = sz\<rparr> p)"

definition lowestFittingCandidate_nat :: "nat \<Rightarrow> Region list \<Rightarrow> nat" where
  "lowestFittingCandidate_nat sz placed =
     (case List.find (fits_nat sz placed) (sort (0 # map (\<lambda>p. offset p + size_r p) placed)) of
        Some c \<Rightarrow> c
      | None \<Rightarrow> 0)"

fun placeAll_nat ::
  "(LiveRange \<times> Region) list \<Rightarrow> (LiveRange \<times> nat) list \<Rightarrow> (LiveRange \<times> Region) list" where
  "placeAll_nat plan [] = plan"
| "placeAll_nat plan ((r, sz) # rest) =
     (let overlapping = map snd (filter (\<lambda>(p, g). overlap p r) plan);
          reg = \<lparr>offset = lowestFittingCandidate_nat sz overlapping, size_r = sz\<rparr>
      in placeAll_nat (umap_assign r reg plan) rest)"

text \<open>
  The correctness invariant of a plan for the managed ranges it was computed from: the
  plan is a map, it holds every managed range with a region of the managed size, and
  distinct ranges that overlap have regions that do not collide.
\<close>

definition plan_ok :: "(LiveRange \<times> nat) list \<Rightarrow> (LiveRange \<times> Region) list \<Rightarrow> bool" where
  "plan_ok managed plan \<longleftrightarrow>
     distinct (map fst plan) \<and>
     (\<forall>(r, sz) \<in> set managed. map_option size_r (map_of plan r) = Some sz) \<and>
     (\<forall>(r1, g1) \<in> set plan. \<forall>(r2, g2) \<in> set plan.
        r1 \<noteq> r2 \<and> overlap r1 r2 \<longrightarrow> \<not> collide g1 g2)"

definition non_colliding :: "(LiveRange \<times> Region) list \<Rightarrow> bool" where
  "non_colliding plan \<longleftrightarrow>
     (\<forall>(r1, g1) \<in> set plan. \<forall>(r2, g2) \<in> set plan.
        r1 \<noteq> r2 \<and> overlap r1 r2 \<longrightarrow> \<not> collide g1 g2)"

section \<open>Static liveness extraction\<close>

definition computeStorageSize :: "Externals \<Rightarrow> Value \<Rightarrow> nat option" where
  "computeStorageSize ext v =
     (case type_v v of
        OtherType \<Rightarrow> None
      | TensorT ttp \<Rightarrow>
          if scalarType ttp = None then None
          else if sizes ttp = None then None
          else
            (case scalarType ttp of
               None \<Rightarrow> None
             | Some scalar_type \<Rightarrow>
                 let element_size = elementSize ext scalar_type
                 in (case numel ttp of
                       None \<Rightarrow> None
                     | Some n \<Rightarrow> Some ((n * element_size) mod 2 ^ 64))))"

definition getSizesStrides :: "TensorType \<Rightarrow> int list \<times> int list" where
  "getSizesStrides ttp =
     (let sizes' =
            (case sizes ttp of
               Some (s # ss) \<Rightarrow> if s \<noteq> 0 then s # ss else [0]
             | _ \<Rightarrow> [0]);
          strides' =
            (case strides ttp of
               Some (s # ss) \<Rightarrow> if s \<noteq> 0 then s # ss else defaultStrides sizes'
             | _ \<Rightarrow> defaultStrides sizes')
      in (sizes', strides'))"

definition hasOutVariant :: "Externals \<Rightarrow> Node \<Rightarrow> bool" where
  "hasOutVariant ext node =
     list_ex (\<lambda>variant_args. list_ex (\<lambda>arg. arg = ''out'') variant_args)
       (getAllOperatorsFor ext (kind node))"

text \<open>
  \<^verbatim>\<open>getManagedValues\<close>: the body of the loop over the outputs of one node, then the loop
  over the nodes. The set \<^verbatim>\<open>leaked_values\<close> of the source is written and never read, and
  \<^verbatim>\<open>isOptimizableContainerType\<close> only chooses whether the insertion into it comes with a
  warning, so neither is here.
\<close>

definition manageOutput ::
  "Externals \<Rightarrow> Value list \<Rightarrow> (Value \<times> nat) list \<Rightarrow> Value \<Rightarrow> (Value \<times> nat) list" where
  "manageOutput ext always_alive_values managed_tensor_values out_v =
     (if out_v \<in> set always_alive_values then managed_tensor_values
      else
        (case computeStorageSize ext out_v of
           Some sz \<Rightarrow>
             if 0 < sz then umap_insert out_v sz managed_tensor_values
             else managed_tensor_values
         | None \<Rightarrow> managed_tensor_values))"

fun getManagedValues_loop ::
  "Externals \<Rightarrow> Value list \<Rightarrow> Node list \<times> (Value \<times> nat) list \<Rightarrow> Node list \<Rightarrow>
   Node list \<times> (Value \<times> nat) list" where
  "getManagedValues_loop ext always_alive_values acc [] = acc"
| "getManagedValues_loop ext always_alive_values (out_nodes, managed_tensor_values) (node # rest) =
     (if \<not> hasOutVariant ext node
      then getManagedValues_loop ext always_alive_values (out_nodes, managed_tensor_values) rest
      else getManagedValues_loop ext always_alive_values
             (out_nodes @ [node],
              fold (\<lambda>out_v m. manageOutput ext always_alive_values m out_v) (outputs node)
                managed_tensor_values)
             rest)"

definition getManagedValues ::
  "Externals \<Rightarrow> Graph \<Rightarrow> Value list \<Rightarrow> Node list \<times> (Value \<times> nat) list" where
  "getManagedValues ext graph always_alive_values =
     getManagedValues_loop ext always_alive_values ([], []) (nodes graph)"

definition getManagedStuff ::
  "Externals \<Rightarrow> Graph \<Rightarrow> Node list \<times> (Value \<times> nat) list \<times> (Value \<times> LiveRange) list" where
  "getManagedStuff ext graph =
     (let always_alive = GetAlwaysAliveValues ext graph;
          live_ranges = GetLiveness ext graph always_alive;
          (out_nodes, managed_tensor_values) = getManagedValues ext graph always_alive;
          managed_ranges =
            fold (\<lambda>lvr m. if map_of managed_tensor_values (fst lvr) \<noteq> None
                           then umap_insert (fst lvr) (snd lvr) m else m)
              live_ranges []
      in (out_nodes, managed_tensor_values, managed_ranges))"

section \<open>Plan materialization\<close>

text \<open>
  Modelled from the spec: the comparison structs of the absent header,
  \<^verbatim>\<open>live_range_start_cmp\<close> (by \<^verbatim>\<open>begin\<close> ascending) and \<^verbatim>\<open>frame_node_id_cmp\<close> (by the time of
  the \<^verbatim>\<open>FrameNodeId\<close> ascending), and the value-initialised \<^verbatim>\<open>LiveRange\<close> and \<^verbatim>\<open>Region\<close> that
  \<^verbatim>\<open>operator[]\<close> inserts for a key that is not in the map.
\<close>

definition live_range_start_cmp :: "LiveRange \<Rightarrow> LiveRange \<Rightarrow> bool" where
  "live_range_start_cmp range1 range2 \<longleftrightarrow> begin_lr range1 < begin_lr range2"

definition frame_node_id_cmp :: "FrameNodeId \<times> 'a \<Rightarrow> FrameNodeId \<times> 'a \<Rightarrow> bool" where
  "frame_node_id_cmp a b \<longleftrightarrow> pc (fst a) < pc (fst b)"

definition defaultLiveRange :: LiveRange where
  "defaultLiveRange = \<lparr>begin_lr = 0, end_lr = 0\<rparr>"

definition defaultRegion :: Region where
  "defaultRegion = \<lparr>offset = 0, size_r = 0\<rparr>"

text \<open>\<^verbatim>\<open>allocations[lvr]\<close> on the by-value copy of the plan.\<close>

definition region_at :: "(LiveRange \<times> Region) list \<Rightarrow> LiveRange \<Rightarrow> Region" where
  "region_at allocations lvr =
     (case map_of allocations lvr of Some region \<Rightarrow> region | None \<Rightarrow> defaultRegion)"

text \<open>
  A \<^verbatim>\<open>std::map\<close> with a comparator is a list in the order of the comparator; two keys are
  the same entry when neither is less than the other. \<open>map_find\<close> is \<^verbatim>\<open>count\<close> and \<^verbatim>\<open>at\<close>,
  \<open>map_insert\<close> is \<^verbatim>\<open>insert\<close>, which keeps an existing entry.
\<close>

fun map_find :: "('k \<Rightarrow> 'k \<Rightarrow> bool) \<Rightarrow> ('k \<times> 'v) list \<Rightarrow> 'k \<Rightarrow> 'v option" where
  "map_find cmp [] k = None"
| "map_find cmp ((k', v') # m) k =
     (if \<not> cmp k k' \<and> \<not> cmp k' k then Some v' else map_find cmp m k)"

definition map_insert :: "('k \<Rightarrow> 'k \<Rightarrow> bool) \<Rightarrow> 'k \<Rightarrow> 'v \<Rightarrow> ('k \<times> 'v) list \<Rightarrow> ('k \<times> 'v) list" where
  "map_insert cmp k v m =
     (case map_find cmp m k of
        Some v' \<Rightarrow> m
      | None \<Rightarrow> insert_by (\<lambda>a b. cmp (fst a) (fst b)) (k, v) m)"

definition set_attr :: "string \<Rightarrow> AttrValue \<Rightarrow> Node \<Rightarrow> Node" where
  "set_attr name v n = n\<lparr>attributes := umap_assign name v (attributes n)\<rparr>"

definition getTotalAllocationSize :: "(LiveRange \<times> Region) list \<Rightarrow> nat" where
  "getTotalAllocationSize allocations =
     fold (\<lambda>item total_size.
             max total_size ((offset (snd item) + size_r (snd item)) mod 2 ^ 64))
       allocations 0"

definition insertAllocStorageNode :: "Externals \<Rightarrow> Graph \<Rightarrow> nat \<Rightarrow> Node \<times> Graph" where
  "insertAllocStorageNode ext graph total_size =
     (let (storage, graph1) = create ''prim::AllocateStorage'' 1 graph;
          storage1 = set_attr ''total_size'' (AttrInt (to_int64 total_size)) storage;
          storage2 =
            (case pickDeviceType ext graph1 of
               Some deviceType \<Rightarrow> set_attr ''device'' (AttrInt (to_int8 deviceType)) storage1
             | None \<Rightarrow> set_attr ''device'' (AttrInt (to_int8 kCPU)) storage1)
      in (storage2, graph1\<lparr>nodes := storage2 # nodes graph1\<rparr>))"

text \<open>
  \<^verbatim>\<open>insertAllocTensorNodes\<close>: one pass of the loop body, in the order in which the source
  can throw, and the loop. The node and the new input are in the graph before the
  \<^verbatim>\<open>TORCH_CHECK\<close> runs; a throw leaves no graph in the model.
\<close>

definition insertAllocTensor ::
  "Node \<Rightarrow> nat \<Rightarrow> (LiveRange \<times> Region) list \<Rightarrow> Graph \<Rightarrow> LiveRange \<times> Value \<Rightarrow> error + Graph" where
  "insertAllocTensor storage total_size allocations graph item =
     (let lvr = fst item; region = region_at allocations lvr; allocation = snd item
      in case producer_index (nodes graph) allocation of
           None \<Rightarrow> Inl NodeNotInGraph
         | Some i \<Rightarrow>
             let (alloc, graph1) = create ''prim::AllocateTensor'' 1 graph
             in case node_output alloc of
                  Inl e \<Rightarrow> Inl e
                | Inr alloc_output \<Rightarrow>
             let node = (nodes graph1 ! i)\<lparr>inputs := inputs (nodes graph1 ! i) @ [alloc_output]\<rparr>
             in case node_output storage of
                  Inl e \<Rightarrow> Inl e
                | Inr storage_output \<Rightarrow>
             let alloc1 = alloc\<lparr>inputs := inputs alloc @ [storage_output]\<rparr>
             in case type_v allocation of
                  OtherType \<Rightarrow> Inl ExpectTensorType
                | TensorT ttp \<Rightarrow>
             let (sizes', strides') = getSizesStrides ttp
             in if \<not> (offset region + size_r region) mod 2 ^ 64 \<le> total_size
                then Inl CheckExceedsPlannedMemory
                else
                  case attr_i storage ''device'' of
                    Inl e \<Rightarrow> Inl e
                  | Inr device \<Rightarrow>
                  case scalarType ttp of
                    None \<Rightarrow> Inl BadOptionalAccess
                  | Some dtype \<Rightarrow>
                      let alloc2 =
                            set_attr ''dtype'' (AttrInt (to_int8 dtype))
                              (set_attr ''device'' (AttrInt (to_int8 device))
                                 (set_attr ''stride'' (AttrInts strides')
                                    (set_attr ''sizes'' (AttrInts sizes')
                                       (set_attr ''offset'' (AttrInt (to_int64 (offset region)))
                                          (set_attr ''size'' (AttrInt (to_int64 (size_r region)))
                                             alloc1)))))
                      in Inr (graph1\<lparr>nodes :=
                                take i (nodes graph1) @ [alloc2, node] @
                                drop (Suc i) (nodes graph1)\<rparr>))"

fun insertAllocTensorNodes_loop ::
  "Node \<Rightarrow> nat \<Rightarrow> (LiveRange \<times> Region) list \<Rightarrow> Graph \<Rightarrow> (LiveRange \<times> Value) list \<Rightarrow>
   error + Graph" where
  "insertAllocTensorNodes_loop storage total_size allocations graph [] = Inr graph"
| "insertAllocTensorNodes_loop storage total_size allocations graph (item # rest) =
     (case insertAllocTensor storage total_size allocations graph item of
        Inl e \<Rightarrow> Inl e
      | Inr graph' \<Rightarrow> insertAllocTensorNodes_loop storage total_size allocations graph' rest)"

definition insertAllocTensorNodes ::
  "Graph \<Rightarrow> Node \<Rightarrow> (LiveRange \<times> Region) list \<Rightarrow> (LiveRange \<times> Value) list \<Rightarrow> error + Graph" where
  "insertAllocTensorNodes graph storage allocations manage_range_values =
     (case attr_i storage ''total_size'' of
        Inl e \<Rightarrow> Inl e
      | Inr total_size \<Rightarrow>
          insertAllocTensorNodes_loop storage (to_uint64 total_size) allocations graph
            manage_range_values)"

text \<open>
  \<^verbatim>\<open>insertPreAllocTensorNodes\<close>. The cursor is a position in the circular node list, the
  nodes of the graph followed by the return node. \<^verbatim>\<open>compare\<close> returns 0 on equal strings,
  so the \<^verbatim>\<open>while\<close> loop steps forward as long as the header of the node at the cursor
  equals the header of the group, and the assertion after it holds when the two strings
  differ. The fuel is the length of the circular list: when every node of it has the
  header of the group the loop of the source never exits, which is \<open>None\<close>.
\<close>

fun advanceCursor :: "(Node \<Rightarrow> string) \<Rightarrow> Node list \<Rightarrow> string \<Rightarrow> nat \<Rightarrow> nat \<Rightarrow> nat option" where
  "advanceCursor header ring h 0 i = None"
| "advanceCursor header ring h (Suc fuel) i =
     (if header (ring ! i) = h
      then advanceCursor header ring h fuel (Suc i mod length ring)
      else Some i)"

fun insertPreAllocs ::
  "(LiveRange \<times> Region) list \<Rightarrow> nat \<Rightarrow> Graph \<Rightarrow> LiveRange list \<Rightarrow> nat \<times> Graph" where
  "insertPreAllocs allocations i graph [] = (i, graph)"
| "insertPreAllocs allocations i graph (lvr # rest) =
     (let region = region_at allocations lvr;
          (alloc, graph1) = create ''prim::PreAllocateTensor'' 0 graph;
          alloc1 =
            set_attr ''offset'' (AttrInt (to_int64 (offset region)))
              (set_attr ''size'' (AttrInt (to_int64 (size_r region))) alloc)
      in insertPreAllocs allocations (Suc i)
           (graph1\<lparr>nodes := take i (nodes graph1) @ [alloc1] @ drop i (nodes graph1)\<rparr>) rest)"

fun insertPreAllocTensorNodes_loop ::
  "Externals \<Rightarrow> (LiveRange \<times> Region) list \<Rightarrow> nat \<Rightarrow> Graph \<Rightarrow>
   (FrameNodeId \<times> LiveRange list) list \<Rightarrow> error + Graph" where
  "insertPreAllocTensorNodes_loop ext allocations i graph [] = Inr graph"
| "insertPreAllocTensorNodes_loop ext allocations i graph (item # rest) =
     (let frame_id = fst item;
          lvrs = std_sort live_range_start_cmp (snd item);
          ring = nodes graph @ [return_node graph]
      in case advanceCursor (getHeader ext) ring (node_header_f frame_id) (length ring) i of
           None \<Rightarrow> Inl CursorNeverStops
         | Some j \<Rightarrow>
             (case canonicalSchemaString ext (ring ! j) of
                None \<Rightarrow> Inl NoSchema
              | Some schema_string \<Rightarrow>
                  if schema_string = node_header_f frame_id then Inl AssertSchemaCompare
                  else
                    let (j', graph') = insertPreAllocs allocations j graph lvrs
                    in insertPreAllocTensorNodes_loop ext allocations j' graph' rest))"

definition insertPreAllocTensorNodes ::
  "Externals \<Rightarrow> Graph \<Rightarrow> Node \<Rightarrow> (LiveRange \<times> Region) list \<Rightarrow>
   (FrameNodeId \<times> LiveRange list) list \<Rightarrow> error + Graph" where
  "insertPreAllocTensorNodes ext graph storage allocations collected_node_live_ranges =
     insertPreAllocTensorNodes_loop ext allocations 0 graph
       (std_sort frame_node_id_cmp collected_node_live_ranges)"

text \<open>
  \<^verbatim>\<open>collectLiveRangesPerNode\<close>;
  \<^verbatim>\<open>node_live_ranges[frame_node_id].emplace_back(lvr)\<close> is \<open>append_live_range\<close>, with two
  \<^verbatim>\<open>FrameNodeId\<close> the same key when all three fields agree.
\<close>

definition append_live_range ::
  "LiveRange \<times> FrameNodeId \<Rightarrow> (FrameNodeId \<times> LiveRange list) list \<Rightarrow>
   (FrameNodeId \<times> LiveRange list) list" where
  "append_live_range item node_live_ranges =
     (case map_of node_live_ranges (snd item) of
        None \<Rightarrow> node_live_ranges @ [(snd item, [fst item])]
      | Some lvrs \<Rightarrow> umap_assign (snd item) (lvrs @ [fst item]) node_live_ranges)"

definition collectLiveRangesPerNode ::
  "(LiveRange \<times> FrameNodeId) list \<Rightarrow> (FrameNodeId \<times> LiveRange list) list" where
  "collectLiveRangesPerNode live_range_node_header =
     (let node_live_ranges = fold append_live_range live_range_node_header []
      in std_sort frame_node_id_cmp
           (map (\<lambda>item. (fst item, std_sort live_range_start_cmp (snd item)))
              node_live_ranges))"

section \<open>The two planners\<close>

text \<open>
  \<^verbatim>\<open>planMemoryWithTracing\<close>; \<open>planMemoryWithTracing_materialize\<close> is the part of the function
  after the \<^verbatim>\<open>switch\<close>. The plan that is computed before the \<^verbatim>\<open>switch\<close> is overwritten or
  dropped in every case.
\<close>

definition planMemoryWithTracing_materialize ::
  "Externals \<Rightarrow> Graph \<Rightarrow> (LiveRange \<times> Region) list \<Rightarrow> (LiveRange \<times> FrameNodeId) list \<Rightarrow>
   error + Graph" where
  "planMemoryWithTracing_materialize ext graph allocations live_range_node_header =
     (let total_size = getTotalAllocationSize allocations;
          (storage_node, graph1) = insertAllocStorageNode ext graph total_size;
          collected_node_live_ranges = collectLiveRangesPerNode live_range_node_header
      in insertPreAllocTensorNodes ext graph1 storage_node allocations
           collected_node_live_ranges)"

definition planMemoryWithTracing_planned ::
  "Externals \<Rightarrow> Graph \<Rightarrow> Strategy \<Rightarrow> (LiveRange \<times> nat) list \<Rightarrow>
   (LiveRange \<times> FrameNodeId) list \<Rightarrow> error + Graph" where
  "planMemoryWithTracing_planned ext graph strat managed_live_ranges live_range_node_header =
     (let allocations = greedyBySize managed_live_ranges
      in case strat of
           NAIVE \<Rightarrow> Inr graph
         | LINEAR_SCAN \<Rightarrow>
             planMemoryWithTracing_materialize ext graph
               (linearScanHeuristic managed_live_ranges) live_range_node_header
         | GREEDY_BY_SIZE \<Rightarrow>
             planMemoryWithTracing_materialize ext graph
               (greedyBySize managed_live_ranges) live_range_node_header
         | GREEDY_BY_BREADTH \<Rightarrow> Inr graph)"

definition planMemoryWithTracing ::
  "Externals \<Rightarrow> Graph \<Rightarrow> Strategy \<Rightarrow> MemEvent list \<Rightarrow> error + Graph" where
  "planMemoryWithTracing ext graph strat mem_events =
     (if mem_events = [] then Inl AssertMemEventsEmpty
      else
        case getLiveRangesFromMemEvents mem_events of
          Inl e \<Rightarrow> Inl e
        | Inr (managed_live_ranges, live_range_node_header) \<Rightarrow>
            planMemoryWithTracing_planned ext graph strat managed_live_ranges
              live_range_node_header)"

text \<open>
  \<^verbatim>\<open>planMemory\<close>. \<open>assignLiveRange\<close> is the body of the first loop:
  \<^verbatim>\<open>managed_value_ranges[item.first]\<close> inserts the value-initialised range for a value that
  has none. \<open>noteManagedRange\<close> is the body of the loop that fills
  \<^verbatim>\<open>managed_range_values\<close> and warns, \<open>managedRangeValues\<close> the loop.
  \<open>planMemory_materialize\<close> is the part of the function
  after the \<^verbatim>\<open>switch\<close>. The result pairs the warnings with the graph or the error.
  \<^verbatim>\<open>printAllocation\<close> and the debug output only print.
\<close>

definition assignLiveRange ::
  "Value \<times> nat \<Rightarrow> (LiveRange \<times> nat) list \<times> (Value \<times> LiveRange) list \<Rightarrow>
   (LiveRange \<times> nat) list \<times> (Value \<times> LiveRange) list" where
  "assignLiveRange item acc =
     (let (managed_live_ranges, managed_value_ranges) = acc;
          lvr = (case map_of managed_value_ranges (fst item) of
                   Some r \<Rightarrow> r
                 | None \<Rightarrow> defaultLiveRange)
      in (umap_assign lvr (snd item) managed_live_ranges,
          umap_insert (fst item) defaultLiveRange managed_value_ranges))"

definition noteManagedRange ::
  "Value \<times> LiveRange \<Rightarrow> Warning list \<times> (LiveRange \<times> Value) list \<Rightarrow>
   Warning list \<times> (LiveRange \<times> Value) list" where
  "noteManagedRange item acc =
     (let (warnings, managed_range_values) = acc
      in ((case map_find live_range_start_cmp managed_range_values (snd item) of
             Some other \<Rightarrow> warnings @ [OverlappingLiveRanges (fst item) other]
           | None \<Rightarrow> warnings),
          map_insert live_range_start_cmp (snd item) (fst item) managed_range_values))"

definition managedRangeValues ::
  "(Value \<times> LiveRange) list \<Rightarrow> Warning list \<times> (LiveRange \<times> Value) list" where
  "managedRangeValues managed_value_ranges = fold noteManagedRange managed_value_ranges ([], [])"

definition planMemory_materialize ::
  "Externals \<Rightarrow> Graph \<Rightarrow> (LiveRange \<times> Region) list \<Rightarrow> (Value \<times> LiveRange) list \<Rightarrow>
   Warning list \<times> (error + Graph)" where
  "planMemory_materialize ext graph allocations managed_value_ranges =
     (let total_size = getTotalAllocationSize allocations;
          (warnings, managed_range_values) = managedRangeValues managed_value_ranges;
          (storage_node, graph1) = insertAllocStorageNode ext graph total_size
      in (warnings, insertAllocTensorNodes graph1 storage_node allocations managed_range_values))"

definition planMemory :: "Externals \<Rightarrow> Graph \<Rightarrow> Strategy \<Rightarrow> Warning list \<times> (error + Graph)" where
  "planMemory ext graph strat =
     (let (out_nodes, managed_value_sizes, managed_value_ranges0) = getManagedStuff ext graph;
          (managed_live_ranges, managed_value_ranges) =
            fold assignLiveRange managed_value_sizes ([], managed_value_ranges0)
      in case strat of
           NAIVE \<Rightarrow> ([], Inr graph)
         | LINEAR_SCAN \<Rightarrow>
             planMemory_materialize ext graph
               (linearScanHeuristic managed_live_ranges) managed_value_ranges
         | GREEDY_BY_SIZE \<Rightarrow>
             planMemory_materialize ext graph
               (greedyBySize managed_live_ranges) managed_value_ranges
         | GREEDY_BY_BREADTH \<Rightarrow>
             planMemory_materialize ext graph
               (greedyByOperatorBreadth (timestamp ext) managed_value_sizes
                  managed_value_ranges out_nodes)
               managed_value_ranges)"

text \<open>
  The two maps that \<^verbatim>\<open>planMemory\<close> holds when it reaches the \<^verbatim>\<open>switch\<close>:
  \<^verbatim>\<open>managed_live_ranges\<close> and \<^verbatim>\<open>managed_value_ranges\<close>.
\<close>

definition managedRanges ::
  "Externals \<Rightarrow> Graph \<Rightarrow> (LiveRange \<times> nat) list \<times> (Value \<times> LiveRange) list" where
  "managedRanges ext graph =
     (let (out_nodes, managed_value_sizes, managed_value_ranges0) = getManagedStuff ext graph
      in fold assignLiveRange managed_value_sizes ([], managed_value_ranges0))"

section \<open>Example inputs\<close>

text \<open>The events of the examples: an Allocate and a Free of \<open>n\<close> bytes at address \<open>p\<close>.\<close>

definition alloc_event :: "nat \<Rightarrow> string \<Rightarrow> string \<Rightarrow> nat \<Rightarrow> MemEvent" where
  "alloc_event t p h n =
     \<lparr>time = t, stack_trace = [], ptr_addr = p, node_schema = ''aten::op'',
      node_header = h, size_e = n, type_e = Allocate\<rparr>"

definition free_event :: "nat \<Rightarrow> string \<Rightarrow> string \<Rightarrow> nat \<Rightarrow> MemEvent" where
  "free_event t p h n =
     \<lparr>time = t, stack_trace = [], ptr_addr = p, node_schema = ''aten::op'',
      node_header = h, size_e = n, type_e = Free\<rparr>"

text \<open>
  A registry in which \<^verbatim>\<open>aten::relu\<close> and \<^verbatim>\<open>aten::mul\<close> have an out-variant, four-byte
  elements, no always-alive values, a given liveness map, node kinds as headers and
  schema strings; a graph of a \<^verbatim>\<open>relu\<close> and a \<^verbatim>\<open>mul\<close> node.
\<close>

definition example_ext :: "(Value \<times> LiveRange) list \<Rightarrow> Externals" where
  "example_ext liveness =
     \<lparr>getAllOperatorsFor =
        (\<lambda>k. if k = ''aten::relu'' \<or> k = ''aten::mul''
              then [[''self''], [''self'', ''out'']] else []),
      elementSize = (\<lambda>st. 4),
      GetAlwaysAliveValues = (\<lambda>g. []),
      GetLiveness = (\<lambda>g alive. liveness),
      pickDeviceType = (\<lambda>g. None),
      getHeader = kind,
      canonicalSchemaString = (\<lambda>n. Some (kind n)),
      timestamp = (\<lambda>n. 0)\<rparr>"

definition float_tensor :: "nat \<Rightarrow> nat \<Rightarrow> Value" where
  "float_tensor u n =
     \<lparr>unique = u,
      type_v = TensorT \<lparr>scalarType = Some 6, sizes = Some [int n], strides = Some [1],
                        numel = Some n\<rparr>\<rparr>"

definition op_node :: "string \<Rightarrow> Value list \<Rightarrow> Value list \<Rightarrow> Node" where
  "op_node k ins outs = \<lparr>kind = k, inputs = ins, outputs = outs, attributes = []\<rparr>"

definition example_graph :: Graph where
  "example_graph =
     \<lparr>nodes = [op_node ''aten::relu'' [float_tensor 0 4] [float_tensor 1 4],
               op_node ''aten::mul'' [float_tensor 0 4, float_tensor 0 4] [float_tensor 2 2]],
      return_node = op_node ''prim::Return'' [float_tensor 1 4, float_tensor 2 2] [],
      next_unique = 3\<rparr>"

definition lr :: "nat \<Rightarrow> nat \<Rightarrow> LiveRange" where "lr b e = \<lparr>begin_lr = b, end_lr = e\<rparr>"
definition frame :: "nat \<Rightarrow> string \<Rightarrow> FrameNodeId" where
  "frame t h = \<lparr>pc = t, node_schema_f = h, node_header_f = h\<rparr>"

text \<open>
  Two values with the same live range; a graph whose only node has no out-variant; the
  ranges of the end-to-end scenario of the specification.
\<close>

definition identical_liveness :: "(Value \<times> LiveRange) list" where
  "identical_liveness = [(float_tensor 1 4, lr 1 3), (float_tensor 2 2, lr 1 3)]"

definition list_graph :: Graph where
  "list_graph =
     \<lparr>nodes = [op_node ''prim::ListConstruct'' [float_tensor 0 4]
                 [\<lparr>unique = 1, type_v = OtherType\<rparr>]],
      return_node = op_node ''prim::Return'' [\<lparr>unique = 1, type_v = OtherType\<rparr>] [],
      next_unique = 2\<rparr>"

definition scenario_ranges :: "(LiveRange \<times> nat) list" where
  "scenario_ranges = [(lr 0 3, 100), (lr 1 2, 40), (lr 4 6, 60), (lr 5 7, 30)]"

text \<open>
  Inputs around the bound \<open>2 ^ 64\<close> and around shared live ranges: three ranges that
  overlap pairwise, of \<open>2 ^ 63\<close>, \<open>2 ^ 63\<close> and 8 bytes, with a graph and a liveness map
  that make \<^verbatim>\<open>planMemory\<close> build them; collaborators that give the two values of
  \<open>example_graph\<close> one live range and put the timestamp of the \<^verbatim>\<open>mul\<close> node inside it and
  the timestamp of the \<^verbatim>\<open>relu\<close> node before it; a liveness map that gives the two values
  two ranges.
\<close>

definition overflow_ranges :: "(LiveRange \<times> nat) list" where
  "overflow_ranges = [(lr 0 1, 2 ^ 63), (lr 0 2, 2 ^ 63), (lr 0 3, 8)]"

definition overflow_liveness :: "(Value \<times> LiveRange) list" where
  "overflow_liveness =
     [(float_tensor 1 (2 ^ 61), lr 0 1), (float_tensor 2 (2 ^ 61), lr 0 2),
      (float_tensor 3 2, lr 0 3)]"

definition overflow_graph :: Graph where
  "overflow_graph =
     \<lparr>nodes = [op_node ''aten::relu'' [float_tensor 0 4] [float_tensor 1 (2 ^ 61)],
               op_node ''aten::relu'' [float_tensor 0 4] [float_tensor 2 (2 ^ 61)],
               op_node ''aten::mul'' [float_tensor 0 4, float_tensor 0 4] [float_tensor 3 2]],
      return_node = op_node ''prim::Return'' [float_tensor 3 2] [],
      next_unique = 4\<rparr>"

definition shared_range_ext :: Externals where
  "shared_range_ext =
     (example_ext identical_liveness)
       \<lparr>timestamp := (\<lambda>n. if kind n = ''aten::mul'' then 2 else 0)\<rparr>"

definition distinct_liveness :: "(Value \<times> LiveRange) list" where
  "distinct_liveness = [(float_tensor 1 4, lr 1 2), (float_tensor 2 2, lr 2 3)]"

text \<open>
  Views of a graph for the statements: how many nodes have a kind, and the kinds of the
  nodes in order with the number of their inputs or with their attributes.
\<close>

definition count_kind :: "string \<Rightarrow> Graph \<Rightarrow> nat" where
  "count_kind k g = length (filter (\<lambda>n. kind n = k) (nodes g))"

definition node_kinds :: "error + Graph \<Rightarrow> error + string list" where
  "node_kinds res = map_sum id (\<lambda>g. map kind (nodes g)) res"

definition node_summary :: "error + Graph \<Rightarrow> error + (string \<times> nat) list" where
  "node_summary res = map_sum id (\<lambda>g. map (\<lambda>n. (kind n, length (inputs n))) (nodes g)) res"

definition node_attributes :: "error + Graph \<Rightarrow> error + (string \<times> (string \<times> AttrValue) list) list" where
  "node_attributes res = map_sum id (\<lambda>g. map (\<lambda>n. (kind n, attributes n)) (nodes g)) res"

section \<open>Properties of the trace extractor\<close>

lemma umap_insert_not_Nil: "umap_insert k v m \<noteq> []"
  by (cases m) (auto simp: umap_insert_def split: option.splits)

lemma processMemEvent_allocs_kept:
  assumes "processMemEvent st ev = Inr st'" and "allocs_st st \<noteq> []"
  shows "allocs_st st' \<noteq> []"
  using assms
  by (auto simp: processMemEvent_def Let_def umap_insert_not_Nil
           split: EventType.splits option.splits if_splits)

lemma processMemEvent_first:
  assumes "processMemEvent st ev = Inr st'" and "allocs_st st = []"
  shows "allocs_st st' \<noteq> []"
  using assms
  by (auto simp: processMemEvent_def umap_insert_not_Nil split: EventType.splits)

lemma sweepMemEvents_allocs_kept:
  "sweepMemEvents st evs = Inr st' \<Longrightarrow> allocs_st st \<noteq> [] \<Longrightarrow> allocs_st st' \<noteq> []"
proof (induction evs arbitrary: st)
  case Nil
  then show ?case by simp
next
  case (Cons ev evs)
  then show ?case
    by (auto split: sum.splits dest: processMemEvent_allocs_kept)
qed

lemma sweepMemEvents_nonempty_allocs:
  assumes "sweepMemEvents st evs = Inr st'" and "evs \<noteq> []"
  shows "allocs_st st' \<noteq> []"
proof (cases evs)
  case Nil
  with assms show ?thesis by simp
next
  case (Cons ev rest)
  with assms obtain st1 where
    step: "processMemEvent st ev = Inr st1" and run: "sweepMemEvents st1 rest = Inr st'"
    by (auto split: sum.splits)
  have "allocs_st st1 \<noteq> []"
    using step processMemEvent_allocs_kept processMemEvent_first by blast
  with run show ?thesis by (rule sweepMemEvents_allocs_kept)
qed

lemma getLiveRangesFromMemEvents_Inr_only_empty:
  "getLiveRangesFromMemEvents evs = Inr res \<Longrightarrow> evs = []"
  by (auto simp: getLiveRangesFromMemEvents_def split: sum.splits if_splits
           dest: sweepMemEvents_nonempty_allocs)

text \<open>
  C2. A trace of one Allocate matched by one later Free with the same address, size,
  schema and header: the sweep accepts both events, the entry of the Allocate is still in
  the open-allocation map after the Free, and the final emptiness assertion fails.
\<close>

theorem C2_matched_pair_rejected:
  "sweepMemEvents init_extract_state
       [alloc_event 1 ''X'' ''h'' 16, free_event 5 ''X'' ''h'' 16] =
     Inr \<lparr>managed_live_ranges_st = [(\<lparr>begin_lr = 1, end_lr = 5\<rparr>, 16)],
          live_range_node_header_st =
            [(\<lparr>begin_lr = 1, end_lr = 5\<rparr>,
              \<lparr>pc = 1, node_schema_f = ''aten::op'', node_header_f = ''h''\<rparr>)],
          allocs_st = [(''X'', alloc_event 1 ''X'' ''h'' 16)]\<rparr>
   \<and> getLiveRangesFromMemEvents
       [alloc_event 1 ''X'' ''h'' 16, free_event 5 ''X'' ''h'' 16] =
     Inl AssertAllocsNotEmpty"
  by (simp add: getLiveRangesFromMemEvents_def processMemEvent_def umap_insert_def
        init_extract_state_def alloc_event_def free_event_def Let_def)

text \<open>
  C3. The trace scenario of the specification, two properly nested Allocate/Free pairs:
  the sweep collects the two expected live ranges with their sizes, but the extractor
  returns no live ranges, it ends in the failed emptiness assertion.
\<close>

theorem C3_two_pairs_no_result:
  "map_sum id managed_live_ranges_st
     (sweepMemEvents init_extract_state
        [alloc_event 1 ''X'' ''h'' 16, alloc_event 2 ''Y'' ''h'' 8,
         free_event 5 ''Y'' ''h'' 8, free_event 9 ''X'' ''h'' 16]) =
     Inr [(\<lparr>begin_lr = 2, end_lr = 5\<rparr>, 8), (\<lparr>begin_lr = 1, end_lr = 9\<rparr>, 16)]
   \<and> getLiveRangesFromMemEvents
        [alloc_event 1 ''X'' ''h'' 16, alloc_event 2 ''Y'' ''h'' 8,
         free_event 5 ''Y'' ''h'' 8, free_event 9 ''X'' ''h'' 16] =
     Inl AssertAllocsNotEmpty"
  by (simp add: getLiveRangesFromMemEvents_def processMemEvent_def umap_insert_def
        init_extract_state_def alloc_event_def free_event_def Let_def)

text \<open>
  The step for a Free whose address matches an open Allocate and whose header differs
  from the header of that Allocate, everything else consistent, raises nothing and emits
  the live range: the assertion that rejects the trace is the final one, which fails for
  a trace with equal headers too.
\<close>

lemma processMemEvent_ignores_header:
  "processMemEvent
       \<lparr>managed_live_ranges_st = [], live_range_node_header_st = [],
        allocs_st = [(''X'', alloc_event 1 ''X'' ''aten::relu'' 16)]\<rparr>
       (free_event 5 ''X'' ''aten::mul'' 16) =
     Inr \<lparr>managed_live_ranges_st = [(\<lparr>begin_lr = 1, end_lr = 5\<rparr>, 16)],
          live_range_node_header_st =
            [(\<lparr>begin_lr = 1, end_lr = 5\<rparr>,
              \<lparr>pc = 1, node_schema_f = ''aten::op'', node_header_f = ''aten::relu''\<rparr>)],
          allocs_st = [(''X'', alloc_event 1 ''X'' ''aten::relu'' 16)]\<rparr>
   \<and> getLiveRangesFromMemEvents
       [alloc_event 1 ''X'' ''aten::relu'' 16, free_event 5 ''X'' ''aten::mul'' 16] =
     Inl AssertAllocsNotEmpty
   \<and> getLiveRangesFromMemEvents
       [alloc_event 1 ''X'' ''aten::relu'' 16, free_event 5 ''X'' ''aten::relu'' 16] =
     Inl AssertAllocsNotEmpty"
  by (simp add: getLiveRangesFromMemEvents_def processMemEvent_def umap_insert_def
        init_extract_state_def alloc_event_def free_event_def Let_def)





section \<open>Properties of the packing heuristics\<close>

lemma collide_sym: "collide a b = collide b a"
  by (auto simp: collide_def)

lemma overlap_sym: "overlap a b = overlap b a"
  by (auto simp: overlap_def)

lemma set_insert_by: "set (insert_by lt x xs) = insert x (set xs)"
  by (induction xs) auto

lemma set_std_sort: "set (std_sort lt xs) = set xs"
  by (induction xs) (auto simp: std_sort_def set_insert_by)

lemma scanGaps_nat_ge: "cur \<le> scanGaps_nat cur sz gs"
proof (induction gs arbitrary: cur)
  case Nil
  show ?case by simp
next
  case (Cons g gs)
  have "max cur (offset g + size_r g) \<le> scanGaps_nat (max cur (offset g + size_r g)) sz gs"
    by (rule Cons.IH)
  then show ?case by simp
qed

lemma scanGaps_nat_free:
  "sorted (map offset gs) \<Longrightarrow> g \<in> set gs \<Longrightarrow>
   \<not> collide \<lparr>offset = scanGaps_nat cur sz gs, size_r = sz\<rparr> g"
proof (induction gs arbitrary: cur)
  case Nil
  then show ?case by simp
next
  case (Cons g0 gs)
  show ?case
  proof (cases "cur + sz \<le> offset g0")
    case True
    from Cons.prems have "offset g0 \<le> offset g" by auto
    with True show ?thesis by (simp add: collide_def)
  next
    case False
    let ?cur = "max cur (offset g0 + size_r g0)"
    show ?thesis
    proof (cases "g = g0")
      case True
      have "?cur \<le> scanGaps_nat ?cur sz gs" by (rule scanGaps_nat_ge)
      with False True show ?thesis by (simp add: collide_def)
    next
      case neq: False
      with Cons.prems have "sorted (map offset gs)" "g \<in> set gs" by auto
      from Cons.IH [OF this] False show ?thesis by simp
    qed
  qed
qed

lemma lowestFreeOffset_nat_free:
  "g \<in> set regions \<Longrightarrow> \<not> collide \<lparr>offset = lowestFreeOffset_nat sz regions, size_r = sz\<rparr> g"
  unfolding lowestFreeOffset_nat_def by (rule scanGaps_nat_free) simp_all

lemma linearScanSweep_nat_sizes:
  "map (\<lambda>(r, g). (r, size_r g)) (linearScanSweep_nat active rest) = rest"
  by (induction rest arbitrary: active) (auto simp: Let_def)

lemma overlap_begin_le_end: "overlap a r \<Longrightarrow> begin_lr r \<le> end_lr a"
  by (simp add: overlap_def)

lemma linearScanSweep_nat_active:
  "sorted (map (\<lambda>(r, sz). begin_lr r) rest) \<Longrightarrow>
   (r, g) \<in> set (linearScanSweep_nat active rest) \<Longrightarrow> (a, ga) \<in> set active \<Longrightarrow>
   overlap a r \<Longrightarrow> \<not> collide g ga"
proof (induction rest arbitrary: active)
  case Nil
  then show ?case by simp
next
  case (Cons x rest)
  obtain r0 sz0 where x: "x = (r0, sz0)" by (cases x)
  define active' where "active' = filter (\<lambda>(a, g). \<not> end_lr a < begin_lr r0) active"
  define reg where "reg = \<lparr>offset = lowestFreeOffset_nat sz0 (map snd active'), size_r = sz0\<rparr>"
  have plan: "linearScanSweep_nat active (x # rest) =
      (r0, reg) # linearScanSweep_nat (active' @ [(r0, reg)]) rest"
    by (simp add: x active'_def reg_def Let_def)
  have sorted_rest: "sorted (map (\<lambda>(r, sz). begin_lr r) rest)"
    using Cons.prems(1) by simp
  have first: "\<forall>y \<in> set rest. begin_lr r0 \<le> begin_lr (fst y)"
    using Cons.prems(1) by (auto simp: x)
  from Cons.prems(2) plan consider
    (head) "r = r0" "g = reg" | (tail) "(r, g) \<in> set (linearScanSweep_nat (active' @ [(r0, reg)]) rest)"
    by auto
  then show ?case
  proof cases
    case head
    with Cons.prems(4) have "begin_lr r0 \<le> end_lr a" by (simp add: overlap_begin_le_end)
    with Cons.prems(3) have "ga \<in> set (map snd active')"
      by (force simp: active'_def)
    then show ?thesis unfolding head reg_def by (rule lowestFreeOffset_nat_free)
  next
    case tail
    then have "(r, size_r g) \<in> set rest"
      using linearScanSweep_nat_sizes [of "active' @ [(r0, reg)]" rest]
      by (metis (mono_tags, lifting) case_prod_conv image_eqI set_map)
    with first have "begin_lr r0 \<le> begin_lr r" by force
    also have "begin_lr r \<le> end_lr a" using Cons.prems(4) by (rule overlap_begin_le_end)
    finally have "(a, ga) \<in> set (active' @ [(r0, reg)])"
      using Cons.prems(3) by (simp add: active'_def)
    from Cons.IH [OF sorted_rest tail this Cons.prems(4)] show ?thesis .
  qed
qed

lemma linearScanSweep_nat_pairwise:
  "sorted (map (\<lambda>(r, sz). begin_lr r) rest) \<Longrightarrow>
   (r1, g1) \<in> set (linearScanSweep_nat active rest) \<Longrightarrow>
   (r2, g2) \<in> set (linearScanSweep_nat active rest) \<Longrightarrow>
   r1 \<noteq> r2 \<Longrightarrow> overlap r1 r2 \<Longrightarrow> \<not> collide g1 g2"
proof (induction rest arbitrary: active)
  case Nil
  then show ?case by simp
next
  case (Cons x rest)
  obtain r0 sz0 where x: "x = (r0, sz0)" by (cases x)
  define active' where "active' = filter (\<lambda>(a, g). \<not> end_lr a < begin_lr r0) active"
  define reg where "reg = \<lparr>offset = lowestFreeOffset_nat sz0 (map snd active'), size_r = sz0\<rparr>"
  let ?tail = "linearScanSweep_nat (active' @ [(r0, reg)]) rest"
  have plan: "linearScanSweep_nat active (x # rest) = (r0, reg) # ?tail"
    by (simp add: x active'_def reg_def Let_def)
  have sorted_rest: "sorted (map (\<lambda>(r, sz). begin_lr r) rest)"
    using Cons.prems(1) by simp
  have new: "(r0, reg) \<in> set (active' @ [(r0, reg)])" by simp
  from Cons.prems(2,3,4) plan consider
    (both) "(r1, g1) \<in> set ?tail" "(r2, g2) \<in> set ?tail"
    | (left) "r1 = r0" "g1 = reg" "(r2, g2) \<in> set ?tail"
    | (right) "r2 = r0" "g2 = reg" "(r1, g1) \<in> set ?tail"
    by auto
  then show ?case
  proof cases
    case both
    from Cons.IH [OF sorted_rest both Cons.prems(4,5)] show ?thesis .
  next
    case left
    from linearScanSweep_nat_active [OF sorted_rest left(3) new] Cons.prems(5) left(1,2)
    show ?thesis by (simp add: collide_sym)
  next
    case right
    from linearScanSweep_nat_active [OF sorted_rest right(3) new] Cons.prems(5) right(1,2)
    show ?thesis by (simp add: overlap_sym)
  qed
qed

lemma map_of_sizes:
  "map_of (map (\<lambda>(r, g). (r, size_r g)) plan) r = map_option size_r (map_of plan r)"
  by (induction plan) auto

lemma fst_sizes: "map fst (map (\<lambda>(r, g). (r, size_r g)) plan) = map fst plan"
  by (induction plan) auto

lemma distinct_fst_sort_key:
  "distinct (map fst (sort_key f xs)) = distinct (map fst xs)"
  by (simp add: distinct_map)

lemma linearScanSweep_nat_plan_ok:
  assumes "distinct (map fst managed)"
  shows "plan_ok managed (linearScanSweep_nat [] (sort_key (\<lambda>(r, sz). begin_lr r) managed))"
proof -
  let ?sorted = "sort_key (\<lambda>(r, sz). begin_lr r) managed"
  let ?plan = "linearScanSweep_nat [] ?sorted"
  have sizes: "map (\<lambda>(r, g). (r, size_r g)) ?plan = ?sorted"
    by (rule linearScanSweep_nat_sizes)
  have keys: "map fst ?plan = map fst ?sorted"
    using fst_sizes [of ?plan] sizes by simp
  have dist: "distinct (map fst ?sorted)"
    using assms by (simp add: distinct_fst_sort_key)
  have d: "distinct (map fst ?plan)" using keys dist by simp
  have s: "map_option size_r (map_of ?plan r) = Some sz" if "(r, sz) \<in> set managed" for r sz
  proof -
    from that have "(r, sz) \<in> set ?sorted" by simp
    with dist have "map_of ?sorted r = Some sz" by (rule map_of_is_SomeI)
    then show ?thesis using map_of_sizes [of ?plan r] sizes by simp
  qed
  have sorted: "sorted (map (\<lambda>(r, sz). begin_lr r) ?sorted)" by (rule sorted_sort_key)
  have p: "\<not> collide g1 g2"
    if "(r1, g1) \<in> set ?plan" "(r2, g2) \<in> set ?plan" "r1 \<noteq> r2" "overlap r1 r2"
    for r1 g1 r2 g2
    using linearScanSweep_nat_pairwise [OF sorted] that by blast
  show ?thesis unfolding plan_ok_def using d s p by blast
qed

lemma map_of_umap_assign: "map_of (umap_assign k v m) = (map_of m)(k \<mapsto> v)"
  by (induction m) auto

lemma set_umap_assign: "set (umap_assign k v m) \<subseteq> insert (k, v) (set m)"
  by (induction m) (auto split: if_splits)

lemma keys_umap_assign:
  "map fst (umap_assign k v m) = (if k \<in> set (map fst m) then map fst m else map fst m @ [k])"
  by (induction m) (force simp: image_iff)+

lemma distinct_umap_assign:
  "distinct (map fst m) \<Longrightarrow> distinct (map fst (umap_assign k v m))"
  by (simp add: keys_umap_assign)

lemma distinct_umap_insert:
  "distinct (map fst m) \<Longrightarrow> distinct (map fst (umap_insert k v m))"
  by (auto simp: umap_insert_def map_of_eq_None_iff split: option.splits)

lemma highest_candidate_fits:
  "fits_nat sz placed (Max (set (0 # map (\<lambda>p. offset p + size_r p) placed)))"
proof -
  let ?cands = "0 # map (\<lambda>p. offset p + size_r p) placed"
  have "offset p + size_r p \<le> Max (set ?cands)" if "p \<in> set placed" for p
    using that by (intro Max_ge) auto
  then show ?thesis by (fastforce simp: fits_nat_def collide_def)
qed

lemma lowestFittingCandidate_nat_fits: "fits_nat sz placed (lowestFittingCandidate_nat sz placed)"
proof -
  let ?cands = "0 # map (\<lambda>p. offset p + size_r p) placed"
  have "Max (set ?cands) \<in> set (sort ?cands)"
    unfolding set_sort by (intro Max_in) auto
  then have "\<exists>c. c \<in> set (sort ?cands) \<and> fits_nat sz placed c"
    using highest_candidate_fits [of sz placed] by blast
  then obtain c where "List.find (fits_nat sz placed) (sort ?cands) = Some c"
    by (cases "List.find (fits_nat sz placed) (sort ?cands)") (auto simp: find_None_iff)
  moreover from this have "fits_nat sz placed c" by (auto simp: find_Some_iff)
  ultimately show ?thesis by (simp add: lowestFittingCandidate_nat_def)
qed

lemma place_step_non_colliding:
  fixes r :: LiveRange and sz :: nat
  assumes "non_colliding plan"
  defines "reg \<equiv> \<lparr>offset = lowestFittingCandidate_nat sz
                      (map snd (filter (\<lambda>(p, g). overlap p r) plan)), size_r = sz\<rparr>"
  shows "non_colliding (umap_assign r reg plan)"
proof -
  have new: "\<not> collide reg g" if "(p, g) \<in> set plan" "overlap p r" for p g
  proof -
    from that have "g \<in> set (map snd (filter (\<lambda>(p, g). overlap p r) plan))" by force
    with lowestFittingCandidate_nat_fits show ?thesis
      unfolding reg_def fits_nat_def by blast
  qed
  show ?thesis
    unfolding non_colliding_def
  proof (intro ballI, clarify)
    fix r1 g1 r2 g2
    assume in1: "(r1, g1) \<in> set (umap_assign r reg plan)"
      and in2: "(r2, g2) \<in> set (umap_assign r reg plan)"
      and neq: "r1 \<noteq> r2" and ov: "overlap r1 r2" and col: "collide g1 g2"
    from in1 set_umap_assign have c1: "(r1, g1) = (r, reg) \<or> (r1, g1) \<in> set plan" by fastforce
    from in2 set_umap_assign have c2: "(r2, g2) = (r, reg) \<or> (r2, g2) \<in> set plan" by fastforce
    from c1 c2 neq consider
      (old) "(r1, g1) \<in> set plan" "(r2, g2) \<in> set plan"
      | (left) "r1 = r" "g1 = reg" "(r2, g2) \<in> set plan"
      | (right) "r2 = r" "g2 = reg" "(r1, g1) \<in> set plan"
      by auto
    then show False
    proof cases
      case old
      with assms(1) neq ov col show False unfolding non_colliding_def by blast
    next
      case left
      with new [of r2 g2] ov col show False by (simp add: overlap_sym)
    next
      case right
      with new [of r1 g1] ov col show False by (simp add: collide_sym)
    qed
  qed
qed

lemma placeAll_nat_non_colliding:
  "non_colliding plan \<Longrightarrow> non_colliding (placeAll_nat plan items)"
proof (induction items arbitrary: plan)
  case Nil
  then show ?case by simp
next
  case (Cons x items)
  obtain r sz where x: "x = (r, sz)" by (cases x)
  show ?case
    unfolding x placeAll_nat.simps Let_def
    by (rule Cons.IH, rule place_step_non_colliding, rule Cons.prems)
qed

lemma placeAll_nat_distinct:
  "distinct (map fst plan) \<Longrightarrow> distinct (map fst (placeAll_nat plan items))"
proof (induction items arbitrary: plan)
  case Nil
  then show ?case by simp
next
  case (Cons x items)
  obtain r sz where x: "x = (r, sz)" by (cases x)
  show ?case
    unfolding x placeAll_nat.simps Let_def
    by (rule Cons.IH, rule distinct_umap_assign, rule Cons.prems)
qed

lemma placeAll_nat_map_of_other:
  "r \<notin> fst ` set items \<Longrightarrow> map_of (placeAll_nat plan items) r = map_of plan r"
proof (induction items arbitrary: plan)
  case Nil
  then show ?case by simp
next
  case (Cons x items)
  obtain r0 sz0 where x: "x = (r0, sz0)" by (cases x)
  from Cons.prems have "r \<noteq> r0" "r \<notin> fst ` set items" by (auto simp: x)
  then show ?case
    by (simp add: x Let_def Cons.IH map_of_umap_assign)
qed

lemma placeAll_nat_size:
  assumes "\<forall>(r, sz) \<in> set items. \<forall>sz'. (r, sz') \<in> set items \<longrightarrow> sz' = sz"
    and "(r, sz) \<in> set items"
  shows "map_option size_r (map_of (placeAll_nat plan items) r) = Some sz"
  using assms
proof (induction items arbitrary: plan)
  case Nil
  then show ?case by simp
next
  case (Cons x items)
  obtain r0 sz0 where x: "x = (r0, sz0)" by (cases x)
  show ?case
  proof (cases "(r, sz) \<in> set items")
    case True
    have "\<forall>(r, sz) \<in> set items. \<forall>sz'. (r, sz') \<in> set items \<longrightarrow> sz' = sz"
      using Cons.prems(1) by fastforce
    from Cons.IH [OF this True] show ?thesis by (simp add: x Let_def)
  next
    case False
    with Cons.prems(2) have eq: "r0 = r" "sz0 = sz" by (auto simp: x)
    have "r \<notin> fst ` set items"
    proof
      assume "r \<in> fst ` set items"
      then obtain sz' where in': "(r, sz') \<in> set items" by auto
      with Cons.prems have "sz' = sz" by fastforce
      with in' False show False by simp
    qed
    then show ?thesis
      by (simp add: x eq Let_def placeAll_nat_map_of_other map_of_umap_assign)
  qed
qed

lemma placeAll_nat_plan_ok:
  assumes "\<forall>(r, sz) \<in> set items. \<forall>sz'. (r, sz') \<in> set items \<longrightarrow> sz' = sz"
    and "set managed \<subseteq> set items"
  shows "plan_ok managed (placeAll_nat [] items)"
proof -
  have "non_colliding (placeAll_nat [] items)"
    by (rule placeAll_nat_non_colliding) (simp add: non_colliding_def)
  moreover have "distinct (map fst (placeAll_nat [] items))"
    by (rule placeAll_nat_distinct) simp
  moreover have "map_option size_r (map_of (placeAll_nat [] items) r) = Some sz"
    if "(r, sz) \<in> set managed" for r sz
    using placeAll_nat_size [of items r sz] assms that by blast
  ultimately show ?thesis unfolding plan_ok_def non_colliding_def by blast
qed

text \<open>
  Below \<open>2 ^ 64\<close> the procedures compute what their counterparts over the natural numbers
  compute: while every region in play ends at or before a bound \<open>B\<close>, and \<open>B\<close> plus the
  sizes still to place is less than \<open>2 ^ 64\<close>, no sum is reduced.
\<close>

lemma add64_eq: "a + b < 2 ^ 64 \<Longrightarrow> add64 a b = a + b"
  by (simp add: add64_def)

lemma end64_eq: "offset g + size_r g < 2 ^ 64 \<Longrightarrow> end64 g = offset g + size_r g"
  by (simp add: end64_def add64_eq)

lemma scanGaps_nat_eq:
  assumes "cur \<le> B" and "\<forall>g \<in> set gs. offset g + size_r g \<le> B" and "B + sz < 2 ^ 64"
  shows "scanGaps cur sz gs = scanGaps_nat cur sz gs \<and> scanGaps_nat cur sz gs \<le> B"
  using assms
proof (induction gs arbitrary: cur)
  case Nil
  then show ?case by simp
next
  case (Cons g gs)
  have a: "add64 cur sz = cur + sz" using Cons.prems by (simp add: add64_eq)
  have e: "end64 g = offset g + size_r g" using Cons.prems by (simp add: end64_eq)
  have m: "max cur (offset g + size_r g) \<le> B" using Cons.prems by simp
  have rest: "\<forall>g \<in> set gs. offset g + size_r g \<le> B" using Cons.prems by simp
  show ?case using Cons.IH [OF m rest Cons.prems(3)] Cons.prems(1) by (simp add: a e)
qed

lemma lowestFreeOffset_nat_eq:
  assumes "\<forall>g \<in> set regions. offset g + size_r g \<le> B" and "B + sz < 2 ^ 64"
  shows "lowestFreeOffset sz regions = lowestFreeOffset_nat sz regions \<and>
         lowestFreeOffset_nat sz regions \<le> B"
  using scanGaps_nat_eq [of 0 B "sort_key offset regions" sz] assms
  by (simp add: lowestFreeOffset_def lowestFreeOffset_nat_def)

lemma linearScanSweep_nat_eq:
  assumes "\<forall>(a, g) \<in> set active. offset g + size_r g \<le> B"
    and "B + sum_list (map snd rest) < 2 ^ 64"
  shows "linearScanSweep active rest = linearScanSweep_nat active rest"
  using assms
proof (induction rest arbitrary: active B)
  case Nil
  show ?case by simp
next
  case (Cons x rest)
  obtain r sz where x: "x = (r, sz)" by (cases x)
  define active' where "active' = filter (\<lambda>(a, g). \<not> end_lr a < begin_lr r) active"
  have bounded: "\<forall>g \<in> set (map snd active'). offset g + size_r g \<le> B"
    using Cons.prems(1) by (auto simp: active'_def)
  have room: "B + sz < 2 ^ 64" using Cons.prems(2) by (simp add: x)
  note eq = lowestFreeOffset_nat_eq [OF bounded room]
  define reg where "reg = \<lparr>offset = lowestFreeOffset_nat sz (map snd active'), size_r = sz\<rparr>"
  have "\<forall>(a, g) \<in> set (active' @ [(r, reg)]). offset g + size_r g \<le> B + sz"
    using bounded eq by (auto simp: reg_def)
  moreover have "(B + sz) + sum_list (map snd rest) < 2 ^ 64"
    using Cons.prems(2) by (simp add: x)
  ultimately have "linearScanSweep (active' @ [(r, reg)]) rest =
      linearScanSweep_nat (active' @ [(r, reg)]) rest"
    by (rule Cons.IH)
  then show ?case
    using eq by (simp add: x Let_def active'_def reg_def)
qed

lemma fits_nat_eq:
  assumes "c + sz < 2 ^ 64" and "\<forall>p \<in> set placed. offset p + size_r p < 2 ^ 64"
  shows "fits sz placed c = fits_nat sz placed c"
  using assms by (simp add: fits_def fits_nat_def collide64_def collide_def end64_eq)

lemma lowestFittingCandidate_nat_eq:
  assumes "\<forall>p \<in> set placed. offset p + size_r p \<le> B" and "B + sz < 2 ^ 64"
  shows "lowestFittingCandidate sz placed = lowestFittingCandidate_nat sz placed \<and>
         lowestFittingCandidate_nat sz placed \<le> B"
proof -
  let ?cands = "sort (0 # map (\<lambda>p. offset p + size_r p) placed)"
  have ends: "map end64 placed = map (\<lambda>p. offset p + size_r p) placed"
    using assms by (auto intro!: end64_eq)
  have small: "c \<le> B" if "c \<in> set ?cands" for c
    using that assms(1) unfolding set_sort by auto
  have "fits sz placed c = fits_nat sz placed c" if "c \<in> set ?cands" for c
  proof (rule fits_nat_eq)
    show "c + sz < 2 ^ 64" using small [OF that] assms(2) by simp
    show "\<forall>p \<in> set placed. offset p + size_r p < 2 ^ 64"
      using assms by fastforce
  qed
  then have find_eq: "List.find (fits sz placed) ?cands = List.find (fits_nat sz placed) ?cands"
    by (intro find_cong) auto
  have bound: "lowestFittingCandidate_nat sz placed \<le> B"
  proof (cases "List.find (fits_nat sz placed) ?cands")
    case None
    then show ?thesis by (simp add: lowestFittingCandidate_nat_def)
  next
    case (Some c)
    then have "c \<in> set ?cands" unfolding find_Some_iff by (metis nth_mem)
    then have "c \<le> B" by (rule small)
    with Some show ?thesis by (simp add: lowestFittingCandidate_nat_def)
  qed
  show ?thesis
    using bound find_eq
    by (simp add: lowestFittingCandidate_def lowestFittingCandidate_nat_def ends)
qed

lemma placeAll_nat_eq:
  assumes "\<forall>(r, g) \<in> set plan. offset g + size_r g \<le> B"
    and "B + sum_list (map snd items) < 2 ^ 64"
  shows "placeAll plan items = placeAll_nat plan items"
  using assms
proof (induction items arbitrary: plan B)
  case Nil
  show ?case by simp
next
  case (Cons x items)
  obtain r sz where x: "x = (r, sz)" by (cases x)
  define overlapping where "overlapping = map snd (filter (\<lambda>(p, g). overlap p r) plan)"
  have bounded: "\<forall>p \<in> set overlapping. offset p + size_r p \<le> B"
    using Cons.prems(1) by (auto simp: overlapping_def)
  have room: "B + sz < 2 ^ 64" using Cons.prems(2) by (simp add: x)
  note eq = lowestFittingCandidate_nat_eq [OF bounded room]
  define reg where "reg = \<lparr>offset = lowestFittingCandidate_nat sz overlapping, size_r = sz\<rparr>"
  have "\<forall>(r', g) \<in> set (umap_assign r reg plan). offset g + size_r g \<le> B + sz"
  proof -
    have "offset reg + size_r reg \<le> B + sz" using eq by (simp add: reg_def)
    moreover have "\<forall>(r', g) \<in> set plan. offset g + size_r g \<le> B + sz"
      using Cons.prems(1) by fastforce
    ultimately show ?thesis using set_umap_assign [of r reg plan] by auto
  qed
  moreover have "(B + sz) + sum_list (map snd items) < 2 ^ 64"
    using Cons.prems(2) by (simp add: x)
  ultimately have "placeAll (umap_assign r reg plan) items =
      placeAll_nat (umap_assign r reg plan) items"
    by (rule Cons.IH)
  then show ?case
    using eq by (simp add: x Let_def overlapping_def reg_def)
qed

lemma sum_list_insort_key:
  "sum_list (map f (insort_key k x xs)) = f x + sum_list (map f xs)"
  for f :: "'a \<Rightarrow> nat"
  by (induction xs) simp_all

lemma sum_list_sort_key: "sum_list (map f (sort_key k xs)) = sum_list (map f xs)"
  for f :: "'a \<Rightarrow> nat"
  by (induction xs) (simp_all add: sum_list_insort_key)

lemma sum_list_insert_by: "sum_list (map f (insert_by lt x xs)) = f x + sum_list (map f xs)"
  for f :: "'a \<Rightarrow> nat"
  by (induction xs) simp_all

lemma sum_list_std_sort: "sum_list (map f (std_sort lt xs)) = sum_list (map f xs)"
  for f :: "'a \<Rightarrow> nat"
  by (induction xs) (simp_all add: std_sort_def sum_list_insert_by)

lemma linearScanHeuristic_plan_ok:
  assumes "distinct (map fst managed)" and "sum_list (map snd managed) < 2 ^ 64"
  shows "plan_ok managed (linearScanHeuristic managed)"
proof -
  have "linearScanSweep [] (sort_key (\<lambda>(r, sz). begin_lr r) managed) =
      linearScanSweep_nat [] (sort_key (\<lambda>(r, sz). begin_lr r) managed)"
    using assms(2) by (intro linearScanSweep_nat_eq [where B = 0]) (simp_all add: sum_list_sort_key)
  then show ?thesis
    using linearScanSweep_nat_plan_ok [OF assms(1)] by (simp add: linearScanHeuristic_def)
qed

lemma greedyBySize_plan_ok:
  assumes "distinct (map fst managed)" and "sum_list (map snd managed) < 2 ^ 64"
  shows "plan_ok managed (greedyBySize managed)"
proof -
  let ?items = "std_sort size_then_range_cmp managed"
  have "placeAll [] ?items = placeAll_nat [] ?items"
    using assms(2) by (intro placeAll_nat_eq [where B = 0]) (simp_all add: sum_list_std_sort)
  moreover have "\<forall>(r, sz) \<in> set ?items. \<forall>sz'. (r, sz') \<in> set ?items \<longrightarrow> sz' = sz"
    using assms(1) by (auto simp: set_std_sort dest: eq_key_imp_eq_value)
  then have "plan_ok managed (placeAll_nat [] ?items)"
    by (rule placeAll_nat_plan_ok) (simp add: set_std_sort)
  ultimately show ?thesis by (simp add: greedyBySize_def)
qed

text \<open>
  The map \<^verbatim>\<open>managed_live_ranges\<close> that \<^verbatim>\<open>planMemory\<close> hands to linear scan and to greedy
  by size has distinct keys.
\<close>

lemma distinct_fold_assignLiveRange_fst:
  "distinct (map fst (fst acc)) \<Longrightarrow>
   distinct (map fst (fst (fold assignLiveRange xs acc)))"
proof (induction xs arbitrary: acc)
  case Nil
  then show ?case by simp
next
  case (Cons x xs)
  have "distinct (map fst (fst (assignLiveRange x acc)))"
    using Cons.prems
    by (cases acc) (simp add: assignLiveRange_def Let_def distinct_umap_assign)
  from Cons.IH [OF this] show ?case by simp
qed

lemma distinct_managed_live_ranges: "distinct (map fst (fst (managedRanges ext graph)))"
  by (cases "getManagedStuff ext graph")
    (simp add: managedRanges_def distinct_fold_assignLiveRange_fst)

text \<open>
  The arguments that \<^verbatim>\<open>planMemory\<close> hands to greedy by operator breadth: every managed
  value is an output of one of the nodes, and every entry of \<^verbatim>\<open>managed_live_ranges\<close> is
  the live range and the size of a managed value. Where no two values have the same
  live range, the ranges and sizes that are placed are those of \<^verbatim>\<open>managed_live_ranges\<close>.
\<close>

lemma map_of_umap_insert:
  "map_of (umap_insert k v m) = (if map_of m k = None then (map_of m)(k \<mapsto> v) else map_of m)"
  by (auto simp: umap_insert_def fun_eq_iff map_add_def split: option.splits)

lemma keys_umap_insert: "fst ` set (umap_insert k v m) \<subseteq> insert k (fst ` set m)"
  by (auto simp: umap_insert_def split: option.splits)

lemma keys_manageOutput:
  "fst ` set (manageOutput ext always_alive m out_v) \<subseteq> insert out_v (fst ` set m)"
  using keys_umap_insert [of out_v _ m]
  by (auto simp: manageOutput_def split: option.splits)

lemma distinct_manageOutput:
  "distinct (map fst m) \<Longrightarrow> distinct (map fst (manageOutput ext always_alive m out_v))"
  by (simp add: manageOutput_def distinct_umap_insert split: option.splits)

lemma keys_fold_manageOutput:
  "fst ` set (fold (\<lambda>out_v m. manageOutput ext always_alive m out_v) vs m)
     \<subseteq> set vs \<union> fst ` set m"
proof (induction vs arbitrary: m)
  case Nil
  show ?case by simp
next
  case (Cons v vs)
  have "fst ` set (fold (\<lambda>out_v m. manageOutput ext always_alive m out_v) vs
           (manageOutput ext always_alive m v))
      \<subseteq> set vs \<union> fst ` set (manageOutput ext always_alive m v)"
    by (rule Cons.IH)
  also have "\<dots> \<subseteq> set vs \<union> insert v (fst ` set m)"
    using keys_manageOutput [of ext always_alive m v] by blast
  finally show ?case by auto
qed

lemma distinct_fold_manageOutput:
  "distinct (map fst m) \<Longrightarrow>
   distinct (map fst (fold (\<lambda>out_v m. manageOutput ext always_alive m out_v) vs m))"
  by (induction vs arbitrary: m) (simp_all add: distinct_manageOutput)

lemma getManagedValues_loop_inv:
  assumes "\<forall>v \<in> fst ` set (snd acc). \<exists>n \<in> set (fst acc). v \<in> set (outputs n)"
    and "distinct (map fst (snd acc))"
  shows "(\<forall>v \<in> fst ` set (snd (getManagedValues_loop ext always_alive acc ns)).
            \<exists>n \<in> set (fst (getManagedValues_loop ext always_alive acc ns)).
               v \<in> set (outputs n)) \<and>
         distinct (map fst (snd (getManagedValues_loop ext always_alive acc ns)))"
  using assms
proof (induction ns arbitrary: acc)
  case Nil
  then show ?case by simp
next
  case (Cons node ns)
  obtain out_nodes m where acc: "acc = (out_nodes, m)" by (cases acc)
  show ?case
  proof (cases "hasOutVariant ext node")
    case False
    then show ?thesis using Cons.IH [OF Cons.prems] by (simp add: acc)
  next
    case True
    let ?m = "fold (\<lambda>out_v m. manageOutput ext always_alive m out_v) (outputs node) m"
    have keys: "fst ` set ?m \<subseteq> set (outputs node) \<union> fst ` set m"
      by (rule keys_fold_manageOutput)
    have dist: "distinct (map fst ?m)"
      using Cons.prems(2) by (simp add: acc distinct_fold_manageOutput)
    have "\<forall>v \<in> fst ` set (snd (out_nodes @ [node], ?m)).
            \<exists>n \<in> set (fst (out_nodes @ [node], ?m)). v \<in> set (outputs n)"
    proof
      fix v assume "v \<in> fst ` set (snd (out_nodes @ [node], ?m))"
      then have "v \<in> set (outputs node) \<or> v \<in> fst ` set m" using keys by auto
      then show "\<exists>n \<in> set (fst (out_nodes @ [node], ?m)). v \<in> set (outputs n)"
        using Cons.prems(1) by (auto simp: acc)
    qed
    moreover have "distinct (map fst (snd (out_nodes @ [node], ?m)))" using dist by simp
    ultimately show ?thesis
      using Cons.IH [of "(out_nodes @ [node], ?m)"] True by (simp add: acc)
  qed
qed

lemma getManagedStuff_sizes:
  "(\<forall>v \<in> fst ` set (fst (snd (getManagedStuff ext graph))).
      \<exists>n \<in> set (fst (getManagedStuff ext graph)). v \<in> set (outputs n)) \<and>
   distinct (map fst (fst (snd (getManagedStuff ext graph))))"
proof -
  let ?aa = "GetAlwaysAliveValues ext graph"
  have eq: "fst (getManagedStuff ext graph) = fst (getManagedValues ext graph ?aa)"
    "fst (snd (getManagedStuff ext graph)) = snd (getManagedValues ext graph ?aa)"
    by (simp_all add: getManagedStuff_def Let_def split: prod.splits)
  show ?thesis
    unfolding eq getManagedValues_def
    by (rule getManagedValues_loop_inv) simp_all
qed

lemma assignLiveRange_step:
  "assignLiveRange (v, sz) (mlr, mvr) =
     (umap_assign (case map_of mvr v of Some r \<Rightarrow> r | None \<Rightarrow> defaultLiveRange) sz mlr,
      umap_insert v defaultLiveRange mvr)"
  by (simp add: assignLiveRange_def Let_def)

lemma fold_assignLiveRange_kept:
  "map_of (snd acc) v = Some r \<Longrightarrow> map_of (snd (fold assignLiveRange xs acc)) v = Some r"
proof (induction xs arbitrary: acc)
  case Nil
  then show ?case by simp
next
  case (Cons x xs)
  obtain v0 sz0 where x: "x = (v0, sz0)" by (cases x)
  obtain mlr mvr where acc: "acc = (mlr, mvr)" by (cases acc)
  have "map_of (snd (assignLiveRange x acc)) v = Some r"
    using Cons.prems by (auto simp: x acc assignLiveRange_step map_of_umap_insert)
  then show ?case using Cons.IH by simp
qed

lemma fold_assignLiveRange_source:
  assumes "(r, sz) \<in> set (fst (fold assignLiveRange xs acc))"
  shows "(r, sz) \<in> set (fst acc) \<or>
         (\<exists>v. (v, sz) \<in> set xs \<and> map_of (snd (fold assignLiveRange xs acc)) v = Some r)"
  using assms
proof (induction xs arbitrary: acc)
  case Nil
  then show ?case by simp
next
  case (Cons x xs)
  obtain v0 sz0 where x: "x = (v0, sz0)" by (cases x)
  obtain mlr mvr where acc: "acc = (mlr, mvr)" by (cases acc)
  let ?r0 = "case map_of mvr v0 of Some r \<Rightarrow> r | None \<Rightarrow> defaultLiveRange"
  let ?acc1 = "assignLiveRange x acc"
  have step: "?acc1 = (umap_assign ?r0 sz0 mlr, umap_insert v0 defaultLiveRange mvr)"
    by (simp add: x acc assignLiveRange_step)
  from Cons.prems have "(r, sz) \<in> set (fst (fold assignLiveRange xs ?acc1))" by simp
  from Cons.IH [OF this] consider
    (old) "(r, sz) \<in> set (fst ?acc1)"
    | (new) v where "(v, sz) \<in> set xs" "map_of (snd (fold assignLiveRange xs ?acc1)) v = Some r"
    by blast
  then show ?case
  proof cases
    case new
    then show ?thesis by auto
  next
    case old
    then have "(r, sz) = (?r0, sz0) \<or> (r, sz) \<in> set mlr"
      using set_umap_assign [of ?r0 sz0 mlr] by (auto simp: step)
    then show ?thesis
    proof
      assume "(r, sz) \<in> set mlr"
      then show ?thesis by (simp add: acc)
    next
      assume eq: "(r, sz) = (?r0, sz0)"
      have "map_of (snd ?acc1) v0 = Some ?r0"
        by (auto simp: step map_of_umap_insert split: option.splits)
      then have "map_of (snd (fold assignLiveRange xs ?acc1)) v0 = Some ?r0"
        by (rule fold_assignLiveRange_kept)
      with eq show ?thesis by (auto simp: x)
    qed
  qed
qed

lemma managedRanges_source:
  assumes "(r, sz) \<in> set (fst (managedRanges ext graph))"
  shows "\<exists>v. (v, sz) \<in> set (fst (snd (getManagedStuff ext graph))) \<and>
             map_of (snd (managedRanges ext graph)) v = Some r"
proof -
  obtain out_nodes sizes mvr0 where stuff: "getManagedStuff ext graph = (out_nodes, sizes, mvr0)"
    by (cases "getManagedStuff ext graph") auto
  have m: "managedRanges ext graph = fold assignLiveRange sizes ([], mvr0)"
    by (simp add: managedRanges_def stuff)
  show ?thesis
    using fold_assignLiveRange_source [of r sz sizes "([], mvr0)"] assms
    by (simp add: m stuff)
qed

lemma set_map_filter: "set (List.map_filter f xs) = {y. \<exists>x \<in> set xs. f x = Some y}"
  by (induction xs) (auto simp: List.map_filter_simps split: option.splits)

lemma set_managedOutputs:
  "set (managedOutputs managed_sizes live_ranges node) =
     {(r, sz). \<exists>v \<in> set (outputs node).
        map_of live_ranges v = Some r \<and> map_of managed_sizes v = Some sz}"
  by (auto simp: managedOutputs_def set_map_filter split: option.splits)

lemma set_breadthItems:
  "set (breadthItems time_of managed_sizes live_ranges ops) =
     {(r, sz). \<exists>n \<in> set ops. \<exists>v \<in> set (outputs n).
        map_of live_ranges v = Some r \<and> map_of managed_sizes v = Some sz}"
  by (auto simp: breadthItems_def Let_def set_std_sort set_managedOutputs)

lemma breadthItems_functional:
  assumes "distinct (map snd live_ranges)"
  shows "\<forall>(r, sz) \<in> set (breadthItems time_of managed_sizes live_ranges ops).
           \<forall>sz'. (r, sz') \<in> set (breadthItems time_of managed_sizes live_ranges ops)
                   \<longrightarrow> sz' = sz"
proof -
  have inj: "v = v'" if "map_of live_ranges v = Some r" "map_of live_ranges v' = Some r" for v v' r
  proof -
    from that have "(v, r) \<in> set live_ranges" "(v', r) \<in> set live_ranges"
      by (auto dest: map_of_SomeD)
    with assms show ?thesis
      by (metis distinct_map inj_onD prod.inject snd_conv)
  qed
  have "sz' = sz"
    if "(r, sz) \<in> set (breadthItems time_of managed_sizes live_ranges ops)"
      and "(r, sz') \<in> set (breadthItems time_of managed_sizes live_ranges ops)"
    for r sz sz'
  proof -
    from that(1) obtain v where v: "map_of live_ranges v = Some r" "map_of managed_sizes v = Some sz"
      unfolding set_breadthItems by blast
    from that(2) obtain v' where v': "map_of live_ranges v' = Some r" "map_of managed_sizes v' = Some sz'"
      unfolding set_breadthItems by blast
    from v(1) v'(1) have "v = v'" by (rule inj)
    with v(2) v'(2) show ?thesis by simp
  qed
  then show ?thesis by blast
qed

lemma greedyByOperatorBreadth_plan_ok:
  assumes "distinct (map snd (snd (managedRanges ext graph)))"
    and "sum_list (map snd
           (breadthItems (timestamp ext) (fst (snd (getManagedStuff ext graph)))
              (snd (managedRanges ext graph)) (fst (getManagedStuff ext graph)))) < 2 ^ 64"
  shows "plan_ok (fst (managedRanges ext graph))
           (greedyByOperatorBreadth (timestamp ext) (fst (snd (getManagedStuff ext graph)))
              (snd (managedRanges ext graph)) (fst (getManagedStuff ext graph)))"
proof -
  let ?sizes = "fst (snd (getManagedStuff ext graph))"
  let ?ops = "fst (getManagedStuff ext graph)"
  let ?mvr = "snd (managedRanges ext graph)"
  let ?items = "breadthItems (timestamp ext) ?sizes ?mvr ?ops"
  have eq: "placeAll [] ?items = placeAll_nat [] ?items"
    using assms(2) by (intro placeAll_nat_eq [where B = 0]) simp_all
  have covered: "set (fst (managedRanges ext graph)) \<subseteq> set ?items"
  proof
    fix item assume item: "item \<in> set (fst (managedRanges ext graph))"
    obtain r sz where rs: "item = (r, sz)" by (cases item)
    from managedRanges_source [of r sz ext graph] item rs obtain v where
      v: "(v, sz) \<in> set ?sizes" "map_of ?mvr v = Some r" by auto
    from getManagedStuff_sizes [of ext graph] v(1) obtain n where
      n: "n \<in> set ?ops" "v \<in> set (outputs n)" by force
    have "map_of ?sizes v = Some sz"
      using getManagedStuff_sizes [of ext graph] v(1) by (simp add: map_of_is_SomeI)
    with v(2) n show "item \<in> set ?items" unfolding set_breadthItems rs by blast
  qed
  have "plan_ok (fst (managedRanges ext graph)) (placeAll_nat [] ?items)"
    using breadthItems_functional [OF assms(1)] covered by (rule placeAll_nat_plan_ok)
  then show ?thesis by (simp add: greedyByOperatorBreadth_def eq)
qed

lemmas example_defs = example_ext_def example_graph_def op_node_def float_tensor_def
  lr_def frame_def

lemmas materializer_defs = insertPreAllocTensorNodes_def insertAllocTensorNodes_def
  insertAllocTensor_def insertAllocStorageNode_def create_def set_attr_def attr_i_def
  node_output_def region_at_def std_sort_def to_int64_def to_uint64_def to_int8_def
  kCPU_def getSizesStrides_def dynamicTensor_def Let_def

lemmas planner_defs = planMemory_def planMemory_materialize_def getManagedStuff_def
  getManagedValues_def manageOutput_def computeStorageSize_def hasOutVariant_def
  assignLiveRange_def managedRangeValues_def noteManagedRange_def map_insert_def
  live_range_start_cmp_def getTotalAllocationSize_def umap_insert_def
  defaultLiveRange_def defaultRegion_def

lemmas heuristic_defs = linearScanHeuristic_def lowestFreeOffset_def greedyBySize_def
  lowestFittingCandidate_def fits_def collide64_def end64_def add64_def overlap_def
  size_then_range_cmp_def std_sort_def

lemma linearScanHeuristic_scenario:
  "linearScanHeuristic scenario_ranges =
     [(lr 0 3, \<lparr>offset = 0, size_r = 100\<rparr>), (lr 1 2, \<lparr>offset = 100, size_r = 40\<rparr>),
      (lr 4 6, \<lparr>offset = 0, size_r = 60\<rparr>), (lr 5 7, \<lparr>offset = 60, size_r = 30\<rparr>)]"
  by (simp add: scenario_ranges_def heuristic_defs lr_def Let_def)

lemma greedyBySize_scenario:
  "greedyBySize scenario_ranges =
     [(lr 0 3, \<lparr>offset = 0, size_r = 100\<rparr>), (lr 4 6, \<lparr>offset = 0, size_r = 60\<rparr>),
      (lr 1 2, \<lparr>offset = 100, size_r = 40\<rparr>), (lr 5 7, \<lparr>offset = 60, size_r = 30\<rparr>)]"
  by (simp add: scenario_ranges_def heuristic_defs lr_def Let_def)

lemma managedRanges_overflow:
  "getManagedStuff (example_ext overflow_liveness) overflow_graph =
     (nodes overflow_graph,
      [(float_tensor 1 (2 ^ 61), 2 ^ 63), (float_tensor 2 (2 ^ 61), 2 ^ 63), (float_tensor 3 2, 8)],
      overflow_liveness) \<and>
   managedRanges (example_ext overflow_liveness) overflow_graph =
     (overflow_ranges, overflow_liveness)"
  by (simp add: managedRanges_def overflow_liveness_def overflow_graph_def overflow_ranges_def
        example_defs planner_defs)

lemma managedRanges_shared_range:
  "getManagedStuff shared_range_ext example_graph =
     (nodes example_graph, [(float_tensor 1 4, 16), (float_tensor 2 2, 8)], identical_liveness) \<and>
   managedRanges shared_range_ext example_graph = ([(lr 1 3, 8)], identical_liveness)"
  by (simp add: managedRanges_def shared_range_ext_def identical_liveness_def
        example_defs planner_defs)

lemma managedRanges_distinct:
  "getManagedStuff (example_ext distinct_liveness) example_graph =
     (nodes example_graph, [(float_tensor 1 4, 16), (float_tensor 2 2, 8)], distinct_liveness) \<and>
   managedRanges (example_ext distinct_liveness) example_graph =
     ([(lr 1 2, 16), (lr 2 3, 8)], distinct_liveness)"
  by (simp add: managedRanges_def distinct_liveness_def example_defs planner_defs)

lemma linearScanHeuristic_overflow:
  "linearScanHeuristic overflow_ranges =
     [(lr 0 1, \<lparr>offset = 0, size_r = 2 ^ 63\<rparr>), (lr 0 2, \<lparr>offset = 2 ^ 63, size_r = 2 ^ 63\<rparr>),
      (lr 0 3, \<lparr>offset = 2 ^ 63, size_r = 8\<rparr>)]"
  by (simp add: overflow_ranges_def heuristic_defs lr_def Let_def)

lemma greedyBySize_overflow:
  "greedyBySize overflow_ranges =
     [(lr 0 1, \<lparr>offset = 0, size_r = 2 ^ 63\<rparr>), (lr 0 2, \<lparr>offset = 2 ^ 63, size_r = 2 ^ 63\<rparr>),
      (lr 0 3, \<lparr>offset = 2 ^ 63, size_r = 8\<rparr>)]"
  by (simp add: overflow_ranges_def heuristic_defs lr_def Let_def)

lemma greedyByOperatorBreadth_shared_range:
  "greedyByOperatorBreadth (timestamp shared_range_ext)
       [(float_tensor 1 4, 16), (float_tensor 2 2, 8)] identical_liveness (nodes example_graph) =
     [(lr 1 3, \<lparr>offset = 8, size_r = 16\<rparr>)]"
  by (simp add: greedyByOperatorBreadth_def breadthItems_def breadth_def managedOutputs_def
        List.map_filter_def shared_range_ext_def identical_liveness_def example_defs
        heuristic_defs Let_def)

lemma greedyByOperatorBreadth_distinct:
  "breadthItems (timestamp (example_ext distinct_liveness))
       [(float_tensor 1 4, 16), (float_tensor 2 2, 8)] distinct_liveness (nodes example_graph) =
     [(lr 1 2, 16), (lr 2 3, 8)] \<and>
   greedyByOperatorBreadth (timestamp (example_ext distinct_liveness))
       [(float_tensor 1 4, 16), (float_tensor 2 2, 8)] distinct_liveness (nodes example_graph) =
     [(lr 1 2, \<lparr>offset = 0, size_r = 16\<rparr>), (lr 2 3, \<lparr>offset = 16, size_r = 8\<rparr>)]"
  by (simp add: greedyByOperatorBreadth_def breadthItems_def breadth_def managedOutputs_def
        List.map_filter_def distinct_liveness_def example_defs heuristic_defs Let_def)

text \<open>
  C1, as amended. The plan that \<^verbatim>\<open>planMemory\<close> materializes for linear scan and for greedy
  by size is the plan of that strategy for the map \<^verbatim>\<open>managed_live_ranges\<close>, and the plan
  it materializes for greedy by operator breadth is the plan of that strategy for the
  sizes, the live ranges and the nodes of the managed values. Where the sizes in
  \<^verbatim>\<open>managed_live_ranges\<close> sum to less than \<open>2 ^ 64\<close>, the plans of linear scan and of greedy
  by size hold every range of the map, give it a region of its size, and give regions
  that do not collide to any two distinct ranges that overlap. Where no two managed
  values have the same live range and the sizes that greedy by operator breadth places
  sum to less than \<open>2 ^ 64\<close>, its plan does the same for \<^verbatim>\<open>managed_live_ranges\<close>. And for
  every map of live ranges to sizes, an association list with distinct keys, whose sizes
  sum to less than \<open>2 ^ 64\<close>, the plans of linear scan and of greedy by size do so.
\<close>

theorem C1_plans_correct_below_overflow:
  "planMemory ext graph LINEAR_SCAN =
     planMemory_materialize ext graph (linearScanHeuristic (fst (managedRanges ext graph)))
       (snd (managedRanges ext graph)) \<and>
   planMemory ext graph GREEDY_BY_SIZE =
     planMemory_materialize ext graph (greedyBySize (fst (managedRanges ext graph)))
       (snd (managedRanges ext graph)) \<and>
   planMemory ext graph GREEDY_BY_BREADTH =
     planMemory_materialize ext graph
       (greedyByOperatorBreadth (timestamp ext) (fst (snd (getManagedStuff ext graph)))
          (snd (managedRanges ext graph)) (fst (getManagedStuff ext graph)))
       (snd (managedRanges ext graph)) \<and>
   (sum_list (map snd (fst (managedRanges ext graph))) < 2 ^ 64 \<longrightarrow>
      plan_ok (fst (managedRanges ext graph))
        (linearScanHeuristic (fst (managedRanges ext graph))) \<and>
      plan_ok (fst (managedRanges ext graph))
        (greedyBySize (fst (managedRanges ext graph)))) \<and>
   (distinct (map snd (snd (managedRanges ext graph))) \<and>
    sum_list (map snd
      (breadthItems (timestamp ext) (fst (snd (getManagedStuff ext graph)))
         (snd (managedRanges ext graph)) (fst (getManagedStuff ext graph)))) < 2 ^ 64 \<longrightarrow>
      plan_ok (fst (managedRanges ext graph))
        (greedyByOperatorBreadth (timestamp ext) (fst (snd (getManagedStuff ext graph)))
           (snd (managedRanges ext graph)) (fst (getManagedStuff ext graph)))) \<and>
   (distinct (map fst managed) \<and> sum_list (map snd managed) < 2 ^ 64 \<longrightarrow>
      plan_ok managed (linearScanHeuristic managed) \<and>
      plan_ok managed (greedyBySize managed))"
proof -
  have calls:
    "planMemory ext graph LINEAR_SCAN =
       planMemory_materialize ext graph (linearScanHeuristic (fst (managedRanges ext graph)))
         (snd (managedRanges ext graph))"
    "planMemory ext graph GREEDY_BY_SIZE =
       planMemory_materialize ext graph (greedyBySize (fst (managedRanges ext graph)))
         (snd (managedRanges ext graph))"
    "planMemory ext graph GREEDY_BY_BREADTH =
       planMemory_materialize ext graph
         (greedyByOperatorBreadth (timestamp ext) (fst (snd (getManagedStuff ext graph)))
            (snd (managedRanges ext graph)) (fst (getManagedStuff ext graph)))
         (snd (managedRanges ext graph))"
    by (simp_all add: planMemory_def managedRanges_def split: prod.splits)
  have inside:
    "plan_ok (fst (managedRanges ext graph))
       (linearScanHeuristic (fst (managedRanges ext graph))) \<and>
     plan_ok (fst (managedRanges ext graph)) (greedyBySize (fst (managedRanges ext graph)))"
    if "sum_list (map snd (fst (managedRanges ext graph))) < 2 ^ 64"
    using that distinct_managed_live_ranges [of ext graph]
    by (simp add: linearScanHeuristic_plan_ok greedyBySize_plan_ok)
  have general:
    "plan_ok managed (linearScanHeuristic managed) \<and> plan_ok managed (greedyBySize managed)"
    if "distinct (map fst managed)" "sum_list (map snd managed) < 2 ^ 64"
    using that by (simp add: linearScanHeuristic_plan_ok greedyBySize_plan_ok)
  show ?thesis
    using calls inside general greedyByOperatorBreadth_plan_ok [of ext graph] by blast
qed

text \<open>
  C1, witness: the ranges of the scenario of the specification, and \<^verbatim>\<open>planMemory\<close> on the
  example graph with two values of two live ranges.
\<close>

theorem C1_plans_correct_below_overflow_witness:
  "fst (managedRanges (example_ext distinct_liveness) example_graph) =
     [(lr 1 2, 16), (lr 2 3, 8)] \<and>
   sum_list (map snd (fst (managedRanges (example_ext distinct_liveness) example_graph)))
     < 2 ^ 64 \<and>
   plan_ok (fst (managedRanges (example_ext distinct_liveness) example_graph))
     (linearScanHeuristic (fst (managedRanges (example_ext distinct_liveness) example_graph))) \<and>
   plan_ok (fst (managedRanges (example_ext distinct_liveness) example_graph))
     (greedyBySize (fst (managedRanges (example_ext distinct_liveness) example_graph))) \<and>
   distinct (map snd (snd (managedRanges (example_ext distinct_liveness) example_graph))) \<and>
   sum_list (map snd
     (breadthItems (timestamp (example_ext distinct_liveness))
        (fst (snd (getManagedStuff (example_ext distinct_liveness) example_graph)))
        (snd (managedRanges (example_ext distinct_liveness) example_graph))
        (fst (getManagedStuff (example_ext distinct_liveness) example_graph)))) < 2 ^ 64 \<and>
   plan_ok (fst (managedRanges (example_ext distinct_liveness) example_graph))
     (greedyByOperatorBreadth (timestamp (example_ext distinct_liveness))
        (fst (snd (getManagedStuff (example_ext distinct_liveness) example_graph)))
        (snd (managedRanges (example_ext distinct_liveness) example_graph))
        (fst (getManagedStuff (example_ext distinct_liveness) example_graph))) \<and>
   greedyByOperatorBreadth (timestamp (example_ext distinct_liveness))
        (fst (snd (getManagedStuff (example_ext distinct_liveness) example_graph)))
        (snd (managedRanges (example_ext distinct_liveness) example_graph))
        (fst (getManagedStuff (example_ext distinct_liveness) example_graph)) =
     [(lr 1 2, \<lparr>offset = 0, size_r = 16\<rparr>), (lr 2 3, \<lparr>offset = 16, size_r = 8\<rparr>)] \<and>
   distinct (map fst scenario_ranges) \<and> sum_list (map snd scenario_ranges) < 2 ^ 64 \<and>
   plan_ok scenario_ranges (linearScanHeuristic scenario_ranges) \<and>
   plan_ok scenario_ranges (greedyBySize scenario_ranges)"
proof -
  note c = C1_plans_correct_below_overflow
    [of "example_ext distinct_liveness" example_graph scenario_ranges]
  have ranges: "fst (managedRanges (example_ext distinct_liveness) example_graph) =
      [(lr 1 2, 16), (lr 2 3, 8)]"
    by (simp add: managedRanges_distinct)
  have h1: "sum_list (map snd (fst (managedRanges (example_ext distinct_liveness) example_graph)))
      < 2 ^ 64"
    by (simp add: managedRanges_distinct)
  have h2: "distinct (map snd (snd (managedRanges (example_ext distinct_liveness) example_graph)))"
    by (simp only: managedRanges_distinct snd_conv) (simp add: distinct_liveness_def lr_def)
  have h3: "sum_list (map snd
     (breadthItems (timestamp (example_ext distinct_liveness))
        (fst (snd (getManagedStuff (example_ext distinct_liveness) example_graph)))
        (snd (managedRanges (example_ext distinct_liveness) example_graph))
        (fst (getManagedStuff (example_ext distinct_liveness) example_graph)))) < 2 ^ 64"
    by (simp only: managedRanges_distinct greedyByOperatorBreadth_distinct fst_conv snd_conv)
      simp_all
  have plan: "greedyByOperatorBreadth (timestamp (example_ext distinct_liveness))
        (fst (snd (getManagedStuff (example_ext distinct_liveness) example_graph)))
        (snd (managedRanges (example_ext distinct_liveness) example_graph))
        (fst (getManagedStuff (example_ext distinct_liveness) example_graph)) =
     [(lr 1 2, \<lparr>offset = 0, size_r = 16\<rparr>), (lr 2 3, \<lparr>offset = 16, size_r = 8\<rparr>)]"
    by (simp only: managedRanges_distinct greedyByOperatorBreadth_distinct fst_conv snd_conv)
  have h4: "distinct (map fst scenario_ranges)" "sum_list (map snd scenario_ranges) < 2 ^ 64"
    by (simp_all add: scenario_ranges_def lr_def)
  show ?thesis
    using c ranges h1 h2 h3 plan h4 by blast
qed

text \<open>
  C1, counterexample. For three ranges that overlap pairwise, of \<open>2 ^ 63\<close>, \<open>2 ^ 63\<close> and 8
  bytes, which \<^verbatim>\<open>planMemory\<close> builds from a graph of three values, linear scan and greedy
  by size give the second and the third range regions that collide: both start at
  \<open>2 ^ 63\<close>, the end \<open>2 ^ 64\<close> of the second region being 0 in 64 bits. And for two values
  with one live range, of 16 and of 8 bytes, where the node of the second value has the
  larger breadth, \<^verbatim>\<open>managed_live_ranges\<close> holds the range with 8 bytes and the plan of
  greedy by operator breadth gives it a region of 16 bytes.
\<close>

theorem C1_overflow_and_shared_range_counterexample:
  "fst (managedRanges (example_ext overflow_liveness) overflow_graph) = overflow_ranges \<and>
   \<not> plan_ok overflow_ranges (linearScanHeuristic overflow_ranges) \<and>
   \<not> plan_ok overflow_ranges (greedyBySize overflow_ranges) \<and>
   overlap (lr 0 2) (lr 0 3) \<and>
   collide \<lparr>offset = 2 ^ 63, size_r = 2 ^ 63\<rparr> \<lparr>offset = 2 ^ 63, size_r = 8\<rparr> \<and>
   fst (managedRanges shared_range_ext example_graph) = [(lr 1 3, 8)] \<and>
   greedyByOperatorBreadth (timestamp shared_range_ext)
       (fst (snd (getManagedStuff shared_range_ext example_graph)))
       (snd (managedRanges shared_range_ext example_graph))
       (fst (getManagedStuff shared_range_ext example_graph)) =
     [(lr 1 3, \<lparr>offset = 8, size_r = 16\<rparr>)] \<and>
   \<not> plan_ok [(lr 1 3, 8)] [(lr 1 3, \<lparr>offset = 8, size_r = 16\<rparr>)]"
  by (simp only: managedRanges_overflow managedRanges_shared_range
        linearScanHeuristic_overflow greedyBySize_overflow greedyByOperatorBreadth_shared_range
        fst_conv snd_conv)
    (simp add: plan_ok_def overflow_ranges_def overlap_def collide_def lr_def)

section \<open>Properties of the planners and of the materializer\<close>

text \<open>
  C8. With strategy Naive, \<^verbatim>\<open>planMemory\<close> returns the graph it was given, for every graph
  and whatever the collaborators answer, and emits no warning.
\<close>

theorem C8_naive_returns_graph: "planMemory ext graph NAIVE = ([], Inr graph)"
  by (simp add: planMemory_def split: prod.splits)

text \<open>
  C10. With strategy GreedyByBreadth, whatever the trace extraction has returned, the
  rest of \<^verbatim>\<open>planMemoryWithTracing\<close> returns the graph it was given and raises nothing; the
  whole function raises the assertion on an empty event list, passes on the error of the
  trace extraction, and otherwise returns the graph it was given.
\<close>

theorem C10_breadth_returns_graph:
  "planMemoryWithTracing_planned ext graph GREEDY_BY_BREADTH managed_live_ranges
     live_range_node_header = Inr graph \<and>
   planMemoryWithTracing ext graph GREEDY_BY_BREADTH mem_events =
     (if mem_events = [] then Inl AssertMemEventsEmpty
      else map_sum id (\<lambda>extracted. graph) (getLiveRangesFromMemEvents mem_events))"
  by (simp add: planMemoryWithTracing_def planMemoryWithTracing_planned_def
        split: sum.splits prod.splits)

lemma planMemoryWithTracing_never_returns:
  "\<exists>e. planMemoryWithTracing ext graph strat mem_events = Inl e"
proof (cases "mem_events = []")
  case True
  then show ?thesis by (simp add: planMemoryWithTracing_def)
next
  case False
  then obtain e where "getLiveRangesFromMemEvents mem_events = Inl e"
    using getLiveRangesFromMemEvents_Inr_only_empty [of mem_events]
    by (cases "getLiveRangesFromMemEvents mem_events") auto
  with False show ?thesis by (simp add: planMemoryWithTracing_def)
qed

lemma to_uint64_to_int64: "to_uint64 (to_int64 n) = n mod 2 ^ 64"
proof -
  have "int (n mod 2 ^ 64) mod 2 ^ 64 = int (n mod 2 ^ 64)"
    by (simp flip: of_nat_mod)
  moreover have "(int (n mod 2 ^ 64) - 2 ^ 64) mod 2 ^ 64 = int (n mod 2 ^ 64)"
    using calculation by (metis minus_mod_self2)
  ultimately show ?thesis
    by (simp add: to_uint64_def to_int64_def Let_def)
qed

lemma fold_max_ge_init:
  "(a::nat) \<le> fold (\<lambda>item total. max total (f item)) xs a"
proof (induction xs arbitrary: a)
  case Nil
  show ?case by simp
next
  case (Cons x xs)
  have "max a (f x) \<le> fold (\<lambda>item total. max total (f item)) xs (max a (f x))"
    by (rule Cons.IH)
  then show ?case by simp
qed

lemma fold_max_ge_member:
  "x \<in> set xs \<Longrightarrow> f x \<le> fold (\<lambda>item total. max total (f item)) xs (a::nat)"
proof (induction xs arbitrary: a)
  case Nil
  then show ?case by simp
next
  case (Cons y xs)
  show ?case
  proof (cases "x = y")
    case True
    have "max a (f y) \<le> fold (\<lambda>item total. max total (f item)) xs (max a (f y))"
      by (rule fold_max_ge_init)
    with True show ?thesis by simp
  next
    case False
    with Cons.prems have "x \<in> set xs" by simp
    then show ?thesis by (simp add: Cons.IH)
  qed
qed

lemma fold_max_bound:
  "(a::nat) < b \<Longrightarrow> \<forall>x \<in> set xs. f x < b \<Longrightarrow>
   fold (\<lambda>item total. max total (f item)) xs a < b"
  by (induction xs arbitrary: a) auto

lemma getTotalAllocationSize_less: "getTotalAllocationSize allocations < 2 ^ 64"
  unfolding getTotalAllocationSize_def by (rule fold_max_bound) simp_all

lemma region_at_within_total:
  "(offset (region_at allocations lvr) + size_r (region_at allocations lvr)) mod 2 ^ 64
     \<le> getTotalAllocationSize allocations"
proof (cases "map_of allocations lvr")
  case None
  then show ?thesis by (simp add: region_at_def defaultRegion_def)
next
  case (Some region)
  then have "(lvr, region) \<in> set allocations" by (rule map_of_SomeD)
  from fold_max_ge_member [OF this, of "\<lambda>item. (offset (snd item) + size_r (snd item)) mod 2 ^ 64" 0]
  show ?thesis using Some by (simp add: region_at_def getTotalAllocationSize_def)
qed

lemma insertAllocTensor_check_passes:
  "insertAllocTensor storage (getTotalAllocationSize allocations) allocations graph item
     \<noteq> Inl CheckExceedsPlannedMemory"
  using region_at_within_total [of allocations "fst item"]
  by (auto simp: insertAllocTensor_def Let_def node_output_def attr_i_def create_def
           split: option.splits sum.splits Type.splits prod.splits list.splits AttrValue.splits)

lemma insertAllocTensorNodes_loop_check_passes:
  "insertAllocTensorNodes_loop storage (getTotalAllocationSize allocations) allocations graph items
     \<noteq> Inl CheckExceedsPlannedMemory"
proof (induction items arbitrary: graph)
  case Nil
  show ?case by simp
next
  case (Cons item items)
  show ?case
    using insertAllocTensor_check_passes [of storage allocations graph item] Cons.IH
    by (auto split: sum.splits)
qed

lemma attr_i_set_attr_other:
  "name' \<noteq> name \<Longrightarrow> attr_i (set_attr name' v n) name = attr_i n name"
  by (simp add: attr_i_def set_attr_def map_of_umap_assign)

lemma attr_i_set_attr_same: "attr_i (set_attr name (AttrInt v) n) name = Inr v"
  by (simp add: attr_i_def set_attr_def map_of_umap_assign)

lemma insertAllocStorageNode_total_size:
  "attr_i (fst (insertAllocStorageNode ext graph total_size)) ''total_size'' =
     Inr (to_int64 total_size)"
  by (simp add: insertAllocStorageNode_def Let_def attr_i_set_attr_other attr_i_set_attr_same
           split: prod.splits option.splits)

lemma planMemory_materialize_check_passes:
  "snd (planMemory_materialize ext graph allocations managed_value_ranges)
     \<noteq> Inl CheckExceedsPlannedMemory"
proof -
  obtain storage graph1 where
    s: "insertAllocStorageNode ext graph (getTotalAllocationSize allocations) = (storage, graph1)"
    by (cases "insertAllocStorageNode ext graph (getTotalAllocationSize allocations)")
  have "attr_i storage ''total_size'' = Inr (to_int64 (getTotalAllocationSize allocations))"
    using insertAllocStorageNode_total_size [of ext graph "getTotalAllocationSize allocations"] s
    by simp
  moreover have "to_uint64 (to_int64 (getTotalAllocationSize allocations)) =
      getTotalAllocationSize allocations"
    using getTotalAllocationSize_less [of allocations] by (simp add: to_uint64_to_int64)
  ultimately show ?thesis
    using insertAllocTensorNodes_loop_check_passes [of storage allocations graph1]
    by (simp add: planMemory_materialize_def Let_def s insertAllocTensorNodes_def
             split: prod.splits)
qed

text \<open>
  The check of static mode, that offset plus size (as the source adds them, modulo
  \<open>2 ^ 64\<close>) is at most \<^verbatim>\<open>total_size\<close>, never fails in \<^verbatim>\<open>planMemory\<close>; and the region that
  either materializer reads from a plan for any live range is within the total size that
  \<^verbatim>\<open>getTotalAllocationSize\<close> computes from that plan.
\<close>

lemma planMemory_check_never_fails:
  "snd (planMemory ext graph strat) \<noteq> Inl CheckExceedsPlannedMemory \<and>
   (offset (region_at allocations lvr) + size_r (region_at allocations lvr)) mod 2 ^ 64
     \<le> getTotalAllocationSize allocations"
proof -
  have "snd (planMemory ext graph strat) \<noteq> Inl CheckExceedsPlannedMemory"
    by (cases strat)
      (simp_all add: planMemory_def planMemory_materialize_check_passes split: prod.splits)
  then show ?thesis using region_at_within_total by simp
qed

text \<open>
  C7. The trace-mode materializer makes no check of a placement against the
  \<^verbatim>\<open>total_size\<close> of the storage node: with a storage node whose \<^verbatim>\<open>total_size\<close> is 0 and a
  plan that places 16 bytes at offset 0, it inserts the PreAllocateTensor node of size 16
  and raises nothing; the static-mode materializer on the same storage node and plan
  fails its check.
\<close>

theorem C7_trace_mode_unchecked:
  "attr_i (fst (insertAllocStorageNode (example_ext []) example_graph 0)) ''total_size'' = Inr 0 \<and>
   node_attributes
     (insertPreAllocTensorNodes (example_ext [])
        (snd (insertAllocStorageNode (example_ext []) example_graph 0))
        (fst (insertAllocStorageNode (example_ext []) example_graph 0))
        [(lr 1 5, \<lparr>offset = 0, size_r = 16\<rparr>)]
        [(frame 1 ''aten::mul'', [lr 1 5])]) =
     Inr [(''prim::PreAllocateTensor'', [(''size'', AttrInt 16), (''offset'', AttrInt 0)]),
          (''prim::AllocateStorage'', [(''total_size'', AttrInt 0), (''device'', AttrInt 0)]),
          (''aten::relu'', []), (''aten::mul'', [])] \<and>
   insertAllocTensorNodes
     (snd (insertAllocStorageNode (example_ext []) example_graph 0))
     (fst (insertAllocStorageNode (example_ext []) example_graph 0))
     [(lr 1 5, \<lparr>offset = 0, size_r = 16\<rparr>)] [(lr 1 5, float_tensor 1 4)] =
     Inl CheckExceedsPlannedMemory"
  by (simp add: node_attributes_def example_defs materializer_defs)

lemma fold_keep: "fold (\<lambda>x m. m) xs a = a"
  by (induction xs) simp_all

lemma getManagedStuff_no_ranges:
  assumes "fst (snd (getManagedStuff ext graph)) = []"
  shows "snd (snd (getManagedStuff ext graph)) = []"
  using assms
  by (simp add: getManagedStuff_def Let_def fold_keep split: prod.splits)

lemma concat_map_Nil: "concat (map (\<lambda>x. []) xs) = []"
  by (induction xs) simp_all

lemma managedOutputs_Nil: "managedOutputs [] [] = (\<lambda>node. [])"
  by (simp add: fun_eq_iff managedOutputs_def List.map_filter_def)

lemma greedyByOperatorBreadth_Nil: "greedyByOperatorBreadth time_of [] [] ops = []"
  by (simp add: greedyByOperatorBreadth_def breadthItems_def managedOutputs_Nil concat_map_Nil)

lemma linearScanHeuristic_Nil: "linearScanHeuristic [] = []"
  by (simp add: linearScanHeuristic_def)

lemma greedyBySize_Nil: "greedyBySize [] = []"
  by (simp add: greedyBySize_def std_sort_def)

lemma planMemory_materialize_Nil:
  "planMemory_materialize ext graph [] [] =
     ([], Inr (snd (insertAllocStorageNode ext graph 0)))"
  using insertAllocStorageNode_total_size [of ext graph 0]
  by (auto simp: planMemory_materialize_def getTotalAllocationSize_def
        managedRangeValues_def insertAllocTensorNodes_def split: prod.splits)

text \<open>
  C9. When no value is managed and the strategy is not Naive, \<^verbatim>\<open>planMemory\<close> returns the
  graph with one new node in front of the nodes it had and nothing else inserted: an
  AllocateStorage node whose \<^verbatim>\<open>total_size\<close> is 0.
\<close>

theorem C9_empty_managed_set:
  assumes "fst (snd (getManagedStuff ext graph)) = []" and "strat \<noteq> NAIVE"
  shows "planMemory ext graph strat =
           ([], Inr (graph\<lparr>nodes := fst (insertAllocStorageNode ext graph 0) # nodes graph,
                          next_unique := next_unique graph + 1\<rparr>)) \<and>
         kind (fst (insertAllocStorageNode ext graph 0)) = ''prim::AllocateStorage'' \<and>
         attr_i (fst (insertAllocStorageNode ext graph 0)) ''total_size'' = Inr 0"
proof -
  obtain out_nodes where stuff: "getManagedStuff ext graph = (out_nodes, [], [])"
    using assms(1) getManagedStuff_no_ranges [OF assms(1)]
    by (cases "getManagedStuff ext graph") auto
  have plan: "planMemory ext graph strat = planMemory_materialize ext graph [] []"
    using assms(2)
    by (cases strat)
      (simp_all add: planMemory_def stuff linearScanHeuristic_Nil greedyBySize_Nil
         greedyByOperatorBreadth_Nil)
  have graph': "snd (insertAllocStorageNode ext graph 0) =
      graph\<lparr>nodes := fst (insertAllocStorageNode ext graph 0) # nodes graph,
            next_unique := next_unique graph + 1\<rparr>"
    by (simp add: insertAllocStorageNode_def create_def Let_def split: option.splits)
  have k: "kind (fst (insertAllocStorageNode ext graph 0)) = ''prim::AllocateStorage''"
    by (simp add: insertAllocStorageNode_def create_def Let_def set_attr_def
          split: option.splits)
  have t: "attr_i (fst (insertAllocStorageNode ext graph 0)) ''total_size'' = Inr 0"
    using insertAllocStorageNode_total_size [of ext graph 0] by (simp add: to_int64_def)
  from plan graph' k t show ?thesis by (simp add: planMemory_materialize_Nil)
qed

text \<open>
  C9, witness: a graph whose only node has no out-variant, planned with greedy by size.
\<close>

theorem C9_empty_managed_set_witness:
  "fst (snd (getManagedStuff (example_ext []) list_graph)) = [] \<and>
   GREEDY_BY_SIZE \<noteq> NAIVE \<and>
   node_attributes (snd (planMemory (example_ext []) list_graph GREEDY_BY_SIZE)) =
     Inr [(''prim::AllocateStorage'', [(''total_size'', AttrInt 0), (''device'', AttrInt 0)]),
          (''prim::ListConstruct'', [])]"
proof -
  have h1: "fst (snd (getManagedStuff (example_ext []) list_graph)) = []"
    by (simp add: list_graph_def example_defs planner_defs)
  have h2: "GREEDY_BY_SIZE \<noteq> NAIVE" by simp
  from C9_empty_managed_set [OF h1 h2] h1 show ?thesis
    by (simp add: node_attributes_def list_graph_def example_defs materializer_defs)
qed

text \<open>
  C4. The trace-mode materializer on the graph of a \<^verbatim>\<open>relu\<close> node followed by a \<^verbatim>\<open>mul\<close>
  node. For a group whose header is that of \<^verbatim>\<open>mul\<close> the cursor does not move, and the
  PreAllocateTensor node is inserted before \<^verbatim>\<open>relu\<close>. For a group whose header is that
  of \<^verbatim>\<open>relu\<close> the cursor steps over \<^verbatim>\<open>relu\<close>, and the node is inserted before \<^verbatim>\<open>mul\<close>.
  With the storage node in front, as \<^verbatim>\<open>planMemoryWithTracing\<close> leaves the graph, the node
  for the \<^verbatim>\<open>mul\<close> group is inserted before the storage node. In no case does the node
  stand immediately before the node whose header matches.
\<close>

theorem C4_cursor_stops_at_first_mismatch:
  "node_kinds
     (insertPreAllocTensorNodes (example_ext []) example_graph
        (fst (insertAllocStorageNode (example_ext []) example_graph 16))
        [(lr 1 5, \<lparr>offset = 0, size_r = 16\<rparr>)]
        [(frame 1 ''aten::mul'', [lr 1 5])]) =
     Inr [''prim::PreAllocateTensor'', ''aten::relu'', ''aten::mul'']
   \<and> node_kinds
     (insertPreAllocTensorNodes (example_ext []) example_graph
        (fst (insertAllocStorageNode (example_ext []) example_graph 16))
        [(lr 1 5, \<lparr>offset = 0, size_r = 16\<rparr>)]
        [(frame 1 ''aten::relu'', [lr 1 5])]) =
     Inr [''aten::relu'', ''prim::PreAllocateTensor'', ''aten::mul'']
   \<and> node_kinds
     (insertPreAllocTensorNodes (example_ext [])
        (snd (insertAllocStorageNode (example_ext []) example_graph 16))
        (fst (insertAllocStorageNode (example_ext []) example_graph 16))
        [(lr 1 5, \<lparr>offset = 0, size_r = 16\<rparr>)]
        [(frame 1 ''aten::mul'', [lr 1 5])]) =
     Inr [''prim::PreAllocateTensor'', ''prim::AllocateStorage'', ''aten::relu'',
          ''aten::mul'']"
  by (simp add: node_kinds_def example_defs materializer_defs)

lemma map_find_start_cmp:
  "map_find live_range_start_cmp m r \<noteq> None \<longleftrightarrow> begin_lr r \<in> (\<lambda>x. begin_lr (fst x)) ` set m"
proof (induction m)
  case Nil
  show ?case by simp
next
  case (Cons x m)
  obtain k' v' where x: "x = (k', v')" by (cases x)
  have "(\<not> live_range_start_cmp r k' \<and> \<not> live_range_start_cmp k' r) = (begin_lr r = begin_lr k')"
    by (auto simp: live_range_start_cmp_def)
  with Cons.IH show ?case by (auto simp: x)
qed

lemma length_insert_by: "length (insert_by lt x xs) = Suc (length xs)"
  by (induction xs) auto

lemma set_map_insert_start_cmp:
  "set (map_insert live_range_start_cmp k v m) =
     (if begin_lr k \<in> (\<lambda>x. begin_lr (fst x)) ` set m then set m else insert (k, v) (set m))"
  using map_find_start_cmp [of m k]
  by (auto simp: map_insert_def set_insert_by split: option.splits)

lemma length_map_insert_start_cmp:
  "length (map_insert live_range_start_cmp k v m) =
     (if begin_lr k \<in> (\<lambda>x. begin_lr (fst x)) ` set m then length m else Suc (length m))"
  using map_find_start_cmp [of m k]
  by (auto simp: map_insert_def length_insert_by split: option.splits)

lemma distinct_map_insert_by:
  "distinct (map f (insert_by lt x xs)) = (f x \<notin> f ` set xs \<and> distinct (map f xs))"
  by (induction xs) (auto simp: set_insert_by)

lemma distinct_map_insert_start_cmp:
  "distinct (map (\<lambda>x. begin_lr (fst x)) m) \<Longrightarrow>
   distinct (map (\<lambda>x. begin_lr (fst x)) (map_insert live_range_start_cmp k v m))"
  using map_find_start_cmp [of m k]
  by (auto simp: map_insert_def distinct_map_insert_by split: option.splits)

lemma noteManagedRange_fold:
  assumes "fold noteManagedRange xs (w, m) = (w', m')"
  shows "length w' + length m' = length w + length m + length xs \<and>
         (\<lambda>x. begin_lr (fst x)) ` set m' =
           (\<lambda>x. begin_lr (fst x)) ` set m \<union> (\<lambda>x. begin_lr (snd x)) ` set xs \<and>
         set m' \<subseteq> set m \<union> (\<lambda>x. (snd x, fst x)) ` set xs \<and>
         (distinct (map (\<lambda>x. begin_lr (fst x)) m) \<longrightarrow>
          distinct (map (\<lambda>x. begin_lr (fst x)) m'))"
  using assms
proof (induction xs arbitrary: w m)
  case Nil
  then show ?case by simp
next
  case (Cons x xs)
  define w1 where "w1 = fst (noteManagedRange x (w, m))"
  define m1 where "m1 = snd (noteManagedRange x (w, m))"
  have m1: "m1 = map_insert live_range_start_cmp (snd x) (fst x) m"
    by (simp add: m1_def noteManagedRange_def)
  have w1: "length w1 = (if begin_lr (snd x) \<in> (\<lambda>x. begin_lr (fst x)) ` set m
                         then Suc (length w) else length w)"
    using map_find_start_cmp [of m "snd x"]
    by (auto simp: w1_def noteManagedRange_def split: option.splits)
  have step: "length w1 + length m1 = length w + length m + 1"
    by (simp add: w1 m1 length_map_insert_start_cmp)
  have begins: "(\<lambda>x. begin_lr (fst x)) ` set m1 =
      insert (begin_lr (snd x)) ((\<lambda>x. begin_lr (fst x)) ` set m)"
    by (auto simp: m1 set_map_insert_start_cmp)
  have sub: "set m1 \<subseteq> insert (snd x, fst x) (set m)"
    by (auto simp: m1 set_map_insert_start_cmp split: if_splits)
  have dist: "distinct (map (\<lambda>x. begin_lr (fst x)) m) \<longrightarrow>
      distinct (map (\<lambda>x. begin_lr (fst x)) m1)"
    unfolding m1 by (simp add: distinct_map_insert_start_cmp)
  have f: "fold noteManagedRange xs (w1, m1) = (w', m')"
    using Cons.prems by (simp add: w1_def m1_def)
  note ih = Cons.IH [OF f]
  have ih1: "length w' + length m' = length w1 + length m1 + length xs"
    using ih by (rule conjunct1)
  have ih2: "(\<lambda>x. begin_lr (fst x)) ` set m' =
           (\<lambda>x. begin_lr (fst x)) ` set m1 \<union> (\<lambda>x. begin_lr (snd x)) ` set xs"
    using ih by (elim conjE)
  have ih3: "set m' \<subseteq> set m1 \<union> (\<lambda>x. (snd x, fst x)) ` set xs"
    using ih by (elim conjE)
  have ih4: "distinct (map (\<lambda>x. begin_lr (fst x)) m1) \<longrightarrow>
          distinct (map (\<lambda>x. begin_lr (fst x)) m')"
    using ih by (elim conjE)
  have c1: "length w' + length m' = length w + length m + length (x # xs)"
    using ih1 step by simp
  have c2: "(\<lambda>x. begin_lr (fst x)) ` set m' =
      (\<lambda>x. begin_lr (fst x)) ` set m \<union> (\<lambda>x. begin_lr (snd x)) ` set (x # xs)"
    unfolding ih2 begins by simp
  have c3: "set m' \<subseteq> set m \<union> (\<lambda>x. (snd x, fst x)) ` set (x # xs)"
  proof -
    have "set m1 \<union> (\<lambda>x. (snd x, fst x)) ` set xs
        \<subseteq> set m \<union> (\<lambda>x. (snd x, fst x)) ` set (x # xs)"
      using sub by auto
    with ih3 show ?thesis by (rule subset_trans)
  qed
  have c4: "distinct (map (\<lambda>x. begin_lr (fst x)) m) \<longrightarrow>
      distinct (map (\<lambda>x. begin_lr (fst x)) m')"
    using ih4 dist by (intro impI) (elim impE, assumption+)
  from c1 c2 c3 c4 show ?case by (intro conjI)
qed

lemma managedRangeValues_props:
  "length (fst (managedRangeValues xs)) + length (snd (managedRangeValues xs)) = length xs"
  "(\<lambda>x. begin_lr (fst x)) ` set (snd (managedRangeValues xs)) = (\<lambda>x. begin_lr (snd x)) ` set xs"
  "set (snd (managedRangeValues xs)) \<subseteq> (\<lambda>x. (snd x, fst x)) ` set xs"
  "distinct (map (\<lambda>x. begin_lr (fst x)) (snd (managedRangeValues xs)))"
  using noteManagedRange_fold [of xs "[]" "[]" "fst (managedRangeValues xs)"
      "snd (managedRangeValues xs)"]
  by (simp_all add: managedRangeValues_def)

lemma managedRangeValues_fewer:
  assumes "distinct (map fst xs)" and "(v1, r) \<in> set xs" and "(v2, r) \<in> set xs" and "v1 \<noteq> v2"
  shows "length (snd (managedRangeValues xs)) < length xs"
proof -
  let ?m = "snd (managedRangeValues xs)"
  let ?b = "\<lambda>x. begin_lr (snd x)"
  from assms(1) have dx: "distinct xs" by (simp add: distinct_map)
  have "\<not> inj_on ?b (set xs)"
  proof
    assume "inj_on ?b (set xs)"
    from inj_onD [OF this _ assms(2,3)] assms(4) show False by simp
  qed
  then have "card (?b ` set xs) \<noteq> card (set xs)"
    by (simp add: inj_on_iff_eq_card)
  moreover have "card (?b ` set xs) \<le> card (set xs)" by (simp add: card_image_le)
  ultimately have "card (?b ` set xs) < length xs"
    using distinct_card [OF dx] by simp
  moreover have "length ?m = card (?b ` set xs)"
  proof -
    have "length ?m = length (map (\<lambda>x. begin_lr (fst x)) ?m)" by simp
    also have "\<dots> = card (set (map (\<lambda>x. begin_lr (fst x)) ?m))"
      using managedRangeValues_props(4) [of xs] by (simp only: distinct_card)
    also have "\<dots> = card (?b ` set xs)"
      using managedRangeValues_props(2) [of xs] by simp
    finally show ?thesis .
  qed
  ultimately show ?thesis by simp
qed

lemma managedRangeValues_not_both:
  assumes "distinct (map fst xs)" and "(v1, r) \<in> set xs" and "(v2, r) \<in> set xs" and "v1 \<noteq> v2"
  shows "\<not> (v1 \<in> snd ` set (snd (managedRangeValues xs)) \<and>
            v2 \<in> snd ` set (snd (managedRangeValues xs)))"
proof
  let ?m = "snd (managedRangeValues xs)"
  assume both: "v1 \<in> snd ` set ?m \<and> v2 \<in> snd ` set ?m"
  have key: "(r, v) \<in> set ?m" if "v \<in> snd ` set ?m" "(v, r) \<in> set xs" for v
  proof -
    from that(1) obtain k where k: "(k, v) \<in> set ?m" by auto
    with managedRangeValues_props(3) [of xs] have "(v, k) \<in> set xs" by auto
    with assms(1) that(2) have "k = r" by (meson eq_key_imp_eq_value)
    with k show ?thesis by simp
  qed
  from both assms have in1: "(r, v1) \<in> set ?m" and in2: "(r, v2) \<in> set ?m"
    by (auto intro: key)
  have "inj_on (\<lambda>x. begin_lr (fst x)) (set ?m)"
    using managedRangeValues_props(4) [of xs] by (simp add: distinct_map)
  from inj_onD [OF this _ in1 in2] assms(4) show False by simp
qed

lemma producer_index_less: "producer_index ns v = Some i \<Longrightarrow> i < length ns"
  by (induction ns arbitrary: i) (auto split: if_splits)

text \<open>
  One pass of the static materializer that returns: an AllocateTensor node stands
  immediately before the producer of the value, the producer has gained the output of
  that node as its last input, and the node carries the size and offset of the region
  that the plan gives the live range.
\<close>

lemma insertAllocTensor_step:
  assumes "insertAllocTensor storage total_size allocations graph item = Inr graph'"
  shows "\<exists>i a out. producer_index (nodes graph) (snd item) = Some i \<and>
           nodes graph' =
             take i (nodes graph) @
             [a, (nodes graph ! i)\<lparr>inputs := inputs (nodes graph ! i) @ [out]\<rparr>] @
             drop (Suc i) (nodes graph) \<and>
           kind a = ''prim::AllocateTensor'' \<and> outputs a = [out] \<and>
           attr_i a ''size'' = Inr (to_int64 (size_r (region_at allocations (fst item)))) \<and>
           attr_i a ''offset'' = Inr (to_int64 (offset (region_at allocations (fst item))))"
proof -
  from assms obtain i where i: "producer_index (nodes graph) (snd item) = Some i"
    by (auto simp: insertAllocTensor_def Let_def split: option.splits)
  from assms i show ?thesis
    apply (simp add: insertAllocTensor_def Let_def create_def node_output_def
        split: sum.splits Type.splits prod.splits if_splits option.splits list.splits)
    apply (auto simp: set_attr_def attr_i_def)
    done
qed


lemma insertAllocTensor_InrD:
  assumes "insertAllocTensor storage total_size allocations graph item = Inr graph'"
  shows "\<exists>i a n'. i < length (nodes graph) \<and>
           nodes graph' = take i (nodes graph) @ [a, n'] @ drop (Suc i) (nodes graph) \<and>
           kind a = ''prim::AllocateTensor'' \<and> kind n' = kind (nodes graph ! i)"
proof -
  from assms obtain i where i: "producer_index (nodes graph) (snd item) = Some i"
    by (auto simp: insertAllocTensor_def Let_def split: option.splits)
  then have less: "i < length (nodes graph)" by (rule producer_index_less)
  from assms i show ?thesis
    apply (simp add: insertAllocTensor_def Let_def create_def node_output_def
        split: sum.splits Type.splits prod.splits if_splits option.splits list.splits)
    apply (intro exI [of _ i] conjI less)
    apply (auto simp: set_attr_def)
    done
qed

lemma count_kind_insert:
  assumes "i < length ns" and "kind n' = kind (ns ! i)"
  shows "length (filter (\<lambda>n. kind n = k) (take i ns @ [a, n'] @ drop (Suc i) ns)) =
         (if kind a = k then 1 else 0) + length (filter (\<lambda>n. kind n = k) ns)"
proof -
  have "ns = take i ns @ [ns ! i] @ drop (Suc i) ns"
    using assms(1) by (simp add: id_take_nth_drop)
  then have "length (filter (\<lambda>n. kind n = k) ns) =
      length (filter (\<lambda>n. kind n = k) (take i ns)) +
      length (filter (\<lambda>n. kind n = k) [ns ! i]) +
      length (filter (\<lambda>n. kind n = k) (drop (Suc i) ns))"
    by (metis (no_types, lifting) add.assoc filter_append length_append)
  then show ?thesis using assms(2) by simp
qed

lemma insertAllocTensor_count:
  assumes "insertAllocTensor storage total_size allocations graph item = Inr graph'"
  shows "count_kind ''prim::AllocateTensor'' graph' =
         Suc (count_kind ''prim::AllocateTensor'' graph)"
proof -
  from insertAllocTensor_InrD [OF assms] obtain i a n' where
    "i < length (nodes graph)"
    "nodes graph' = take i (nodes graph) @ [a, n'] @ drop (Suc i) (nodes graph)"
    "kind a = ''prim::AllocateTensor''" "kind n' = kind (nodes graph ! i)"
    by blast
  then show ?thesis
    using count_kind_insert [of i "nodes graph" n' "''prim::AllocateTensor''" a]
    by (simp add: count_kind_def)
qed

lemma insertAllocTensorNodes_loop_count:
  "insertAllocTensorNodes_loop storage total_size allocations graph items = Inr graph' \<Longrightarrow>
   count_kind ''prim::AllocateTensor'' graph' =
     count_kind ''prim::AllocateTensor'' graph + length items"
proof (induction items arbitrary: graph)
  case Nil
  then show ?case by simp
next
  case (Cons item items)
  from Cons.prems obtain graph1 where
    step: "insertAllocTensor storage total_size allocations graph item = Inr graph1" and
    rest: "insertAllocTensorNodes_loop storage total_size allocations graph1 items = Inr graph'"
    by (auto split: sum.splits)
  from Cons.IH [OF rest] insertAllocTensor_count [OF step] show ?case by simp
qed

lemma insertAllocStorageNode_count:
  "count_kind ''prim::AllocateTensor'' (snd (insertAllocStorageNode ext graph total_size)) =
     count_kind ''prim::AllocateTensor'' graph"
  by (simp add: insertAllocStorageNode_def create_def Let_def set_attr_def count_kind_def
        split: option.splits)

lemma planMemory_materialize_count:
  assumes "snd (planMemory_materialize ext graph allocations managed_value_ranges) = Inr graph'"
  shows "count_kind ''prim::AllocateTensor'' graph' =
         count_kind ''prim::AllocateTensor'' graph +
         length (snd (managedRangeValues managed_value_ranges))"
proof -
  obtain storage graph1 where
    s: "insertAllocStorageNode ext graph (getTotalAllocationSize allocations) = (storage, graph1)"
    by (cases "insertAllocStorageNode ext graph (getTotalAllocationSize allocations)")
  from assms s obtain total_size where
    "insertAllocTensorNodes_loop storage total_size allocations graph1
       (snd (managedRangeValues managed_value_ranges)) = Inr graph'"
    by (auto simp: planMemory_materialize_def Let_def insertAllocTensorNodes_def
             split: prod.splits sum.splits)
  from insertAllocTensorNodes_loop_count [OF this]
    insertAllocStorageNode_count [of ext graph "getTotalAllocationSize allocations"] s
  show ?thesis by simp
qed

lemma planMemory_materialize_warnings:
  "fst (planMemory_materialize ext graph allocations managed_value_ranges) =
     fst (managedRangeValues managed_value_ranges)"
  by (simp add: planMemory_materialize_def Let_def split: prod.splits)

lemma distinct_fold_insert_if:
  "distinct (map fst m) \<Longrightarrow>
   distinct (map fst (fold (\<lambda>x m. if P x then umap_insert (f x) (g x) m else m) xs m))"
  by (induction xs arbitrary: m) (simp_all add: distinct_umap_insert)

lemma distinct_fold_assignLiveRange:
  "distinct (map fst (snd acc)) \<Longrightarrow>
   distinct (map fst (snd (fold assignLiveRange xs acc)))"
proof (induction xs arbitrary: acc)
  case Nil
  then show ?case by simp
next
  case (Cons x xs)
  have "distinct (map fst (snd (assignLiveRange x acc)))"
    using Cons.prems
    by (cases acc) (simp add: assignLiveRange_def Let_def distinct_umap_insert)
  from Cons.IH [OF this] show ?case by simp
qed

lemma distinct_managedRanges: "distinct (map fst (snd (managedRanges ext graph)))"
proof -
  have "distinct (map fst (snd (snd (getManagedStuff ext graph))))"
    by (simp add: getManagedStuff_def Let_def distinct_fold_insert_if split: prod.splits)
  then show ?thesis
    by (cases "getManagedStuff ext graph")
      (simp add: managedRanges_def distinct_fold_assignLiveRange)
qed

lemma planMemory_not_naive:
  assumes "strat \<noteq> NAIVE"
  shows "\<exists>allocations. planMemory ext graph strat =
           planMemory_materialize ext graph allocations (snd (managedRanges ext graph))"
  using assms
  by (cases strat) (auto simp: planMemory_def managedRanges_def split: prod.splits)

text \<open>
  C6, as amended. When two distinct managed values have the same live range and the
  strategy is not Naive, \<^verbatim>\<open>planMemory\<close> emits a warning, keeps at most one of the two
  values in \<^verbatim>\<open>managed_range_values\<close>, which has fewer entries than there are managed
  values, and a run that returns has inserted exactly one AllocateTensor node for each
  entry kept.
\<close>

theorem C6_identical_ranges_one_kept:
  assumes "(v1, r) \<in> set (snd (managedRanges ext graph))"
    and "(v2, r) \<in> set (snd (managedRanges ext graph))"
    and "v1 \<noteq> v2" and "strat \<noteq> NAIVE"
  shows "fst (planMemory ext graph strat) \<noteq> [] \<and>
         \<not> (v1 \<in> snd ` set (snd (managedRangeValues (snd (managedRanges ext graph)))) \<and>
            v2 \<in> snd ` set (snd (managedRangeValues (snd (managedRanges ext graph))))) \<and>
         (\<forall>graph'. snd (planMemory ext graph strat) = Inr graph' \<longrightarrow>
            count_kind ''prim::AllocateTensor'' graph' =
              count_kind ''prim::AllocateTensor'' graph +
              length (snd (managedRangeValues (snd (managedRanges ext graph))))) \<and>
         length (snd (managedRangeValues (snd (managedRanges ext graph)))) <
           length (snd (managedRanges ext graph))"
proof -
  let ?mvr = "snd (managedRanges ext graph)"
  note d = distinct_managedRanges [of ext graph]
  from planMemory_not_naive [OF assms(4)] obtain allocations where
    plan: "planMemory ext graph strat = planMemory_materialize ext graph allocations ?mvr"
    by blast
  have fewer: "length (snd (managedRangeValues ?mvr)) < length ?mvr"
    using d assms(1,2,3) by (rule managedRangeValues_fewer)
  with managedRangeValues_props(1) [of ?mvr] have "fst (managedRangeValues ?mvr) \<noteq> []"
    by auto
  then have warn: "fst (planMemory ext graph strat) \<noteq> []"
    by (simp add: plan planMemory_materialize_warnings)
  have one: "\<not> (v1 \<in> snd ` set (snd (managedRangeValues ?mvr)) \<and>
                v2 \<in> snd ` set (snd (managedRangeValues ?mvr)))"
    using d assms(1,2,3) by (rule managedRangeValues_not_both)
  have count: "\<forall>graph'. snd (planMemory ext graph strat) = Inr graph' \<longrightarrow>
      count_kind ''prim::AllocateTensor'' graph' =
        count_kind ''prim::AllocateTensor'' graph + length (snd (managedRangeValues ?mvr))"
    unfolding plan by (intro allI impI) (rule planMemory_materialize_count)
  from warn one count fewer show ?thesis by (intro conjI)
qed

text \<open>
  C6, counterexample. The outputs of \<^verbatim>\<open>relu\<close> and \<^verbatim>\<open>mul\<close> are managed and have the same
  live range. \<^verbatim>\<open>planMemory\<close> warns once and inserts one AllocateTensor node, in front of
  \<^verbatim>\<open>relu\<close>; \<^verbatim>\<open>relu\<close> has gained an input, \<^verbatim>\<open>mul\<close> still has its two inputs. Which of
  the two values is kept follows the iteration order of the unordered map, here the
  order of insertion.
\<close>

theorem C6_identical_ranges_counterexample:
  "fst (planMemory (example_ext identical_liveness) example_graph LINEAR_SCAN) =
     [OverlappingLiveRanges (float_tensor 2 2) (float_tensor 1 4)] \<and>
   node_summary (snd (planMemory (example_ext identical_liveness) example_graph LINEAR_SCAN)) =
     Inr [(''prim::AllocateStorage'', 0), (''prim::AllocateTensor'', 1),
          (''aten::relu'', 2), (''aten::mul'', 2)]"
  by (simp add: node_summary_def identical_liveness_def example_defs planner_defs
        heuristic_defs materializer_defs)

lemma managedRanges_identical:
  "managedRanges (example_ext identical_liveness) example_graph =
     ([(lr 1 3, 8)], identical_liveness)"
  by (simp add: managedRanges_def identical_liveness_def example_defs planner_defs)

text \<open>C6, witness: the same two values and graph, with linear scan.\<close>

theorem C6_identical_ranges_witness:
  "(float_tensor 1 4, lr 1 3)
     \<in> set (snd (managedRanges (example_ext identical_liveness) example_graph)) \<and>
   (float_tensor 2 2, lr 1 3)
     \<in> set (snd (managedRanges (example_ext identical_liveness) example_graph)) \<and>
   float_tensor 1 4 \<noteq> float_tensor 2 2 \<and> LINEAR_SCAN \<noteq> NAIVE \<and>
   fst (planMemory (example_ext identical_liveness) example_graph LINEAR_SCAN) \<noteq> [] \<and>
   length (snd (managedRangeValues
      (snd (managedRanges (example_ext identical_liveness) example_graph)))) <
     length (snd (managedRanges (example_ext identical_liveness) example_graph))"
proof -
  have h1: "(float_tensor 1 4, lr 1 3)
      \<in> set (snd (managedRanges (example_ext identical_liveness) example_graph))"
    by (simp add: managedRanges_identical) (simp add: identical_liveness_def)
  have h2: "(float_tensor 2 2, lr 1 3)
      \<in> set (snd (managedRanges (example_ext identical_liveness) example_graph))"
    by (simp add: managedRanges_identical) (simp add: identical_liveness_def)
  have h3: "float_tensor 1 4 \<noteq> float_tensor 2 2" by (simp add: float_tensor_def)
  have h4: "LINEAR_SCAN \<noteq> NAIVE" by simp
  from C6_identical_ranges_one_kept [OF h1 h2 h3 h4] h1 h2 h3 show ?thesis by simp
qed

end
